theory Spec2Isabelle
  imports Main "HOL-Library.Multiset" "HOL-Library.Sublist"
begin

section \<open>JavaScript values used by the identity allocator\<close>

text \<open>
  The counters object of \<^verbatim>\<open>src/index.tsx\<close> is typed \<^verbatim>\<open>any\<close>. The model fixes the
  shape the program itself writes: a field is either absent (\<open>None\<close>) or holds a value of
  its kind. A counter is a non-negative integer held by a JavaScript number, which is a
  double: every integer up to \<open>2^53\<close>, and from there on the even ones up to
  \<open>2^54\<close>; larger numbers, which \<^verbatim>\<open>toString\<close> prints rounded, are not modelled.
  Besides these a counter can be \<^verbatim>\<open>NaN\<close> (what \<^verbatim>\<open>undefined++\<close> leaves behind) or
  \<^verbatim>\<open>null\<close> (what \<^verbatim>\<open>JSON.stringify\<close> turns \<^verbatim>\<open>NaN\<close> into). Strings are lists of characters; upper-casing
  is modelled on ASCII letters, every other character is caseless. Object keys that name
  members of \<^verbatim>\<open>Object.prototype\<close> are not modelled: a dictionary is a map.
\<close>

datatype jsnum = Num nat | NaN | Null

text \<open>\<^verbatim>\<open>ToNumber\<close> of a field that may be absent: \<^verbatim>\<open>undefined\<close> is \<^verbatim>\<open>NaN\<close>, \<^verbatim>\<open>null\<close> is 0.\<close>

fun toNumber :: "jsnum option \<Rightarrow> jsnum" where
  "toNumber None = NaN"
| "toNumber (Some Null) = Num 0"
| "toNumber (Some NaN) = NaN"
| "toNumber (Some (Num n)) = Num n"

text \<open>
  \<^verbatim>\<open>x + 1\<close> in double precision. Below \<open>2^53 = 9007199254740992\<close> the sum is exact.
  From \<open>2^53\<close> to \<open>2^54 = 18014398509481984\<close> the doubles are the even integers and
  \<open>x + 1\<close> lies half-way between \<open>x\<close> and \<open>x + 2\<close>: it is rounded to the one whose
  significand \<open>x div 2\<close> or \<open>x div 2 + 1\<close> is even, so \<open>2^53 + 1\<close> is \<open>2^53\<close> again.
  From \<open>2^54\<close> on the sum rounds back to \<open>x\<close>. The bounds are compared as integers.
\<close>

definition addOne :: "nat \<Rightarrow> nat" where
  "addOne n =
     (if int n < 9007199254740992 then Suc n
      else if int n < 18014398509481984 \<and> odd (n div 2) then n + 2
      else n)"

text \<open>The value stored by \<^verbatim>\<open>x++\<close> once \<open>x\<close> has been converted by \<open>toNumber\<close>.\<close>

fun increment :: "jsnum \<Rightarrow> jsnum" where
  "increment (Num n) = Num (addOne n)"
| "increment NaN = NaN"
| "increment Null = Num 1"

definition digitChar :: "nat \<Rightarrow> char" where
  "digitChar d = char_of (48 + d)"

text \<open>\<^verbatim>\<open>Number.prototype.toString\<close> on a non-negative integer: decimal, no leading zero.\<close>

fun natToString :: "nat \<Rightarrow> string" where
  "natToString n = (if n < 10 then [digitChar n] else natToString (n div 10) @ [digitChar (n mod 10)])"

declare natToString.simps [simp del]

fun numToString :: "jsnum \<Rightarrow> string" where
  "numToString (Num n) = natToString n"
| "numToString NaN = ''NaN''"
| "numToString Null = ''null''"

definition padStart :: "nat \<Rightarrow> char \<Rightarrow> string \<Rightarrow> string" where
  "padStart n c s = replicate (n - length s) c @ s"

definition toUpperCaseChar :: "char \<Rightarrow> char" where
  "toUpperCaseChar c =
     (if 97 \<le> (of_char c :: nat) \<and> (of_char c :: nat) \<le> 122 then char_of ((of_char c :: nat) - 32) else c)"

definition toUpperCase :: "string \<Rightarrow> string" where
  "toUpperCase s = map toUpperCaseChar s"

text \<open>The character class \<^verbatim>\<open>[A-Z\d]\<close>; \<^verbatim>\<open>replace(/[^A-Z\d]/g, '')\<close> keeps exactly these.\<close>

definition isUpperOrDigit :: "char \<Rightarrow> bool" where
  "isUpperOrDigit c =
     ((65 \<le> (of_char c :: nat) \<and> (of_char c :: nat) \<le> 90) \<or> (48 \<le> (of_char c :: nat) \<and> (of_char c :: nat) \<le> 57))"

text \<open>\<^verbatim>\<open>x || d\<close> on a string that may be \<^verbatim>\<open>undefined\<close>: the empty string is falsy too.\<close>

fun orDefault :: "string option \<Rightarrow> string \<Rightarrow> string" where
  "orDefault None d = d"
| "orDefault (Some s) d = (if s = [] then d else s)"

section \<open>The counters and the identity allocator\<close>

record counters =
  colorMap :: "(string \<rightharpoonup> string) option"
  nextColorNum :: "jsnum option"
  typeCounters :: "(string \<rightharpoonup> jsnum) option"
  version :: "nat option"

text \<open>The object \<^verbatim>\<open>{}\<close>: the application's first counters.\<close>

definition emptyCounters :: counters where
  "emptyCounters = \<lparr>colorMap = None, nextColorNum = None, typeCounters = None, version = None\<rparr>"

text \<open>
  \<^verbatim>\<open>JSON.parse(JSON.stringify(c))\<close> seen as a value: the same fields, \<^verbatim>\<open>NaN\<close> written as
  \<^verbatim>\<open>null\<close>.
\<close>

fun jsonNum :: "jsnum \<Rightarrow> jsnum" where
  "jsonNum NaN = Null"
| "jsonNum v = v"

definition jsonCopy :: "counters \<Rightarrow> counters" where
  "jsonCopy c =
     \<lparr>colorMap = colorMap c,
      nextColorNum = map_option jsonNum (nextColorNum c),
      typeCounters = map_option (\<lambda>m. map_option jsonNum \<circ> m) (typeCounters c),
      version = version c\<rparr>"

text \<open>\<^verbatim>\<open>(typeStr || 'UNK').toUpperCase().replace(/[^A-Z\d]/g, '').substring(0, 4)\<close>\<close>

definition typeCode :: "string option \<Rightarrow> string" where
  "typeCode typeStr = take 4 (filter isUpperOrDigit (toUpperCase (orDefault typeStr ''UNK'')))"

text \<open>
  \<^verbatim>\<open>generateNewIdAndUpdateCounters\<close> (index.tsx, 109-135). The source works on the copy
  in place; here each step yields the next value of the copied fields. An absent
  \<^verbatim>\<open>colorMap\<close> is created together with \<^verbatim>\<open>nextColorNum = 1\<close>, an absent
  \<^verbatim>\<open>typeCounters\<close> is created empty, an absent entry for the type starts at 1, and a
  colour label whose entry is absent or the empty string takes the next colour number.
\<close>

definition generateNewIdAndUpdateCounters ::
  "string option \<Rightarrow> string option \<Rightarrow> counters \<Rightarrow> string \<times> counters" where
  "generateNewIdAndUpdateCounters typeStr mfgColorStr currentCounters =
     (let type = typeCode typeStr;
          mfgColor = orDefault mfgColorStr ''Unknown'';
          countersCopy = jsonCopy currentCounters;
          (cmap, nextC) = (case colorMap countersCopy of
                             None \<Rightarrow> (Map.empty, Some (Num 1))
                           | Some m \<Rightarrow> (m, nextColorNum countersCopy));
          tcs = (case typeCounters countersCopy of None \<Rightarrow> Map.empty | Some t \<Rightarrow> t);
          entry = (case tcs type of None \<Rightarrow> Num 1 | Some v \<Rightarrow> v);
          (colorCode, cmap', nextC') =
             (case cmap mfgColor of
                Some (ch # code) \<Rightarrow> (ch # code, cmap, nextC)
              | _ \<Rightarrow> (let code = padStart 3 (CHR ''0'') (numToString (toNumber nextC))
                      in (code, cmap(mfgColor \<mapsto> code), Some (increment (toNumber nextC)))));
          spoolNum = padStart 4 (CHR ''0'') (numToString (toNumber (Some entry)));
          newId = type @ ''-'' @ spoolNum @ ''-'' @ colorCode
      in (newId,
          countersCopy\<lparr>colorMap := Some cmap', nextColorNum := nextC',
                       typeCounters := Some (tcs(type \<mapsto> increment (toNumber (Some entry))))\<rparr>))"

text \<open>
  A run of allocations in which every call receives the counters returned by the call
  before it, as \<^verbatim>\<open>saveFilament\<close> and the id migration of \<^verbatim>\<open>migrateData\<close> do.
\<close>

fun allocateAll :: "counters \<Rightarrow> (string option \<times> string option) list \<Rightarrow> string list \<times> counters" where
  "allocateAll cs [] = ([], cs)"
| "allocateAll cs ((typeStr, mfgColorStr) # reqs) =
     (let (newId, updated) = generateNewIdAndUpdateCounters typeStr mfgColorStr cs;
          (ids, final) = allocateAll updated reqs
      in (newId # ids, final))"

section \<open>Observations on counters and ids\<close>

text \<open>
  The spool number the next allocation for type code \<open>t\<close> will issue: 1 when the type
  has no entry yet; an entry that is not a number reads as 0 after the JSON copy.
\<close>

definition spoolCounter :: "counters \<Rightarrow> string \<Rightarrow> nat" where
  "spoolCounter cs t =
     (case typeCounters cs of
        None \<Rightarrow> 1
      | Some m \<Rightarrow> (case m t of None \<Rightarrow> 1 | Some (Num n) \<Rightarrow> n | Some _ \<Rightarrow> 0))"




section \<open>The location tree\<close>

text \<open>
  \<^verbatim>\<open>StorageNode\<close> (index.tsx, 56-60): a node carries its display name, its full path and
  its ordered children. The editor joins path segments with \<^verbatim>\<open>' / '\<close> (space, slash,
  space). The handlers of \<^verbatim>\<open>StorageManager\<close> work on a JSON copy of the tree held in the
  component state and store the result with \<^verbatim>\<open>setTree\<close>; the model passes the tree in
  and returns the tree that is stored. What \<^verbatim>\<open>prompt\<close> and \<^verbatim>\<open>confirm\<close> return is an
  argument (\<open>None\<close> is a cancelled prompt).
\<close>

datatype StorageNode = StorageNode (name: string) (path: string) (children: "StorageNode list")

text \<open>
  What a handler can throw: \<^verbatim>\<open>new RegExp\<close> raises \<^verbatim>\<open>SyntaxError\<close> on a malformed
  pattern, reading a property of \<^verbatim>\<open>undefined\<close> raises \<^verbatim>\<open>TypeError\<close>. \<open>OutsideModel\<close>
  is not an error of the program: it marks a regular expression or a replacement string
  that uses syntax this model does not interpret.
\<close>

datatype error = SyntaxError | OutsideModel | TypeError

text \<open>
  \<^verbatim>\<open>traverse\<close> of \<^verbatim>\<open>handleSaveStorageTree\<close> (index.tsx, 1549): all paths, pre-order,
  siblings in list order.
\<close>

fun traverse :: "StorageNode list \<Rightarrow> string list" where
  "traverse [] = []"
| "traverse (StorageNode n q cs # rest) = q # traverse cs @ traverse rest"

text \<open>
  \<^verbatim>\<open>handleAdd\<close> (index.tsx, 910-929). \<^verbatim>\<open>findAndAdd\<close> appends the new node to the
  children of the first node, in pre-order, whose path is the parent path, and reports
  whether it found one. No check looks for an existing node with the new path.
\<close>

fun findAndAdd :: "StorageNode \<Rightarrow> string \<Rightarrow> StorageNode list \<Rightarrow> bool \<times> StorageNode list" where
  "findAndAdd newNode p [] = (False, [])"
| "findAndAdd newNode p (StorageNode n q cs # rest) =
     (if q = p then (True, StorageNode n q (cs @ [newNode]) # rest)
      else (case findAndAdd newNode p cs of
              (True, cs') \<Rightarrow> (True, StorageNode n q cs' # rest)
            | (False, _) \<Rightarrow>
                (case findAndAdd newNode p rest of (found, rest') \<Rightarrow> (found, StorageNode n q cs # rest'))))"

definition handleAdd :: "StorageNode list \<Rightarrow> string \<Rightarrow> string option \<Rightarrow> StorageNode list" where
  "handleAdd tree p prompted =
     (case prompted of
        None \<Rightarrow> tree
      | Some nm \<Rightarrow>
          if nm = [] then tree
          else (let newNode = StorageNode nm (if p \<noteq> [] then p @ '' / '' @ nm else nm) []
                in if p = [] then tree @ [newNode] else snd (findAndAdd newNode p tree)))"

text \<open>
  \<^verbatim>\<open>handleDelete\<close> (index.tsx, 931-937):
  \<^verbatim>\<open>nodes.filter(node => node.path !== p).map(node => ({...node, children: findAndDelete(node.children, p)}))\<close>,
  written as a recursion over the list.
\<close>

fun findAndDelete :: "StorageNode list \<Rightarrow> string \<Rightarrow> StorageNode list" where
  "findAndDelete [] p = []"
| "findAndDelete (StorageNode n q cs # rest) p =
     (if q = p then findAndDelete rest p
      else StorageNode n q (findAndDelete cs p) # findAndDelete rest p)"

definition handleDelete :: "StorageNode list \<Rightarrow> string \<Rightarrow> bool \<Rightarrow> StorageNode list" where
  "handleDelete tree p confirmed = (if \<not> confirmed then tree else findAndDelete tree p)"

text \<open>
  \<^verbatim>\<open>child.path.replace(new RegExp(`^${oldParentPath}`), newParentPath)\<close> (index.tsx, 955):
  the old path is spliced into a regular expression unescaped. The model interprets the
  patterns made of ordinary characters, the dot (any character but a line break) and
  balanced groups; a group has no effect on what such a pattern matches.
  An unmatched parenthesis is the \<^verbatim>\<open>SyntaxError\<close> of \<^verbatim>\<open>new RegExp\<close>; every other
  syntax character puts the pattern outside the model, and so does a \<^verbatim>\<open>$\<close> in the
  replacement of a matching path.
\<close>

datatype rx_atom = RxChar char | RxAny

definition unsupportedSyntax :: "char list" where
  "unsupportedSyntax = CHR 0x5C # ''^$*+?[]{}|''"

fun parsePattern :: "nat \<Rightarrow> string \<Rightarrow> error + rx_atom list" where
  "parsePattern depth [] = (if depth = 0 then Inr [] else Inl SyntaxError)"
| "parsePattern depth (c # cs) =
     (if c = CHR ''('' then parsePattern (Suc depth) cs
      else if c = CHR '')'' then (if depth = 0 then Inl SyntaxError else parsePattern (depth - 1) cs)
      else if c \<in> set unsupportedSyntax then Inl OutsideModel
      else (case parsePattern depth cs of
              Inl e \<Rightarrow> Inl e
            | Inr atoms \<Rightarrow> Inr ((if c = CHR ''.'' then RxAny else RxChar c) # atoms)))"

fun matchPrefix :: "rx_atom list \<Rightarrow> string \<Rightarrow> string option" where
  "matchPrefix [] s = Some s"
| "matchPrefix (a # atoms) [] = None"
| "matchPrefix (RxChar c # atoms) (x # xs) = (if x = c then matchPrefix atoms xs else None)"
| "matchPrefix (RxAny # atoms) (x # xs) =
     (if x = CHR 0x0A \<or> x = CHR 0x0D then None else matchPrefix atoms xs)"

definition replacePrefixRegExp :: "string \<Rightarrow> string \<Rightarrow> string \<Rightarrow> error + string" where
  "replacePrefixRegExp oldParentPath newParentPath s =
     (case parsePattern 0 oldParentPath of
        Inl e \<Rightarrow> Inl e
      | Inr atoms \<Rightarrow>
          (case matchPrefix atoms s of
             None \<Rightarrow> Inr s
           | Some rest \<Rightarrow>
               if CHR ''$'' \<in> set newParentPath then Inl OutsideModel else Inr (newParentPath @ rest)))"

text \<open>
  \<^verbatim>\<open>updateChildPaths\<close> (index.tsx, 953-958) rewrites the path of every descendant; the
  expression is built once per visited node, so a leaf is renamed without any.
\<close>

fun updateChildPaths :: "StorageNode list \<Rightarrow> string \<Rightarrow> string \<Rightarrow> error + StorageNode list" where
  "updateChildPaths [] oldParentPath newParentPath = Inr []"
| "updateChildPaths (StorageNode n q cs # rest) oldParentPath newParentPath =
     (case replacePrefixRegExp oldParentPath newParentPath q of
        Inl e \<Rightarrow> Inl e
      | Inr q' \<Rightarrow>
          (case updateChildPaths cs oldParentPath newParentPath of
             Inl e \<Rightarrow> Inl e
           | Inr cs' \<Rightarrow>
               (case updateChildPaths rest oldParentPath newParentPath of
                  Inl e \<Rightarrow> Inl e
                | Inr rest' \<Rightarrow> Inr (StorageNode n q' cs' # rest'))))"

text \<open>
  \<^verbatim>\<open>p.includes(' / ') ? p.substring(0, p.lastIndexOf(' / ')) : ''\<close> and the new path
  \<^verbatim>\<open>parentPath ? `${parentPath} / ${newName}` : newName\<close> (index.tsx, 947-950).
\<close>

fun lastIndexOf :: "string \<Rightarrow> string \<Rightarrow> nat option" where
  "lastIndexOf [] pat = (if pat = [] then Some 0 else None)"
| "lastIndexOf (c # s) pat =
     (case lastIndexOf s pat of
        Some i \<Rightarrow> Some (Suc i)
      | None \<Rightarrow> if prefix pat (c # s) then Some 0 else None)"

definition parentPathOf :: "string \<Rightarrow> string" where
  "parentPathOf p = (case lastIndexOf p '' / '' of None \<Rightarrow> [] | Some i \<Rightarrow> take i p)"

definition renamedPath :: "string \<Rightarrow> string \<Rightarrow> string" where
  "renamedPath p newName =
     (if parentPathOf p \<noteq> [] then parentPathOf p @ '' / '' @ newName else newName)"

text \<open>
  \<^verbatim>\<open>handleRename\<close> (index.tsx, 939-968): the first node in pre-order with the given
  path takes the new name and path, and its descendants are rewritten. An exception leaves
  the handler before \<^verbatim>\<open>setTree\<close>. No check looks for another node with the new path.
\<close>

fun findAndRename :: "string \<Rightarrow> string \<Rightarrow> StorageNode list \<Rightarrow> error + bool \<times> StorageNode list" where
  "findAndRename newName p [] = Inr (False, [])"
| "findAndRename newName p (StorageNode n q cs # rest) =
     (if q = p then
        (case updateChildPaths cs q (renamedPath p newName) of
           Inl e \<Rightarrow> Inl e
         | Inr cs' \<Rightarrow> Inr (True, StorageNode newName (renamedPath p newName) cs' # rest))
      else
        (case findAndRename newName p cs of
           Inl e \<Rightarrow> Inl e
         | Inr (True, cs') \<Rightarrow> Inr (True, StorageNode n q cs' # rest)
         | Inr (False, _) \<Rightarrow>
             (case findAndRename newName p rest of
                Inl e \<Rightarrow> Inl e
              | Inr (found, rest') \<Rightarrow> Inr (found, StorageNode n q cs # rest'))))"

definition handleRename :: "StorageNode list \<Rightarrow> string \<Rightarrow> string \<Rightarrow> string option \<Rightarrow> error + StorageNode list" where
  "handleRename tree p oldName prompted =
     (case prompted of
        None \<Rightarrow> Inr tree
      | Some newName \<Rightarrow>
          if newName = [] \<or> newName = oldName then Inr tree
          else (case findAndRename newName p tree of
                  Inl e \<Rightarrow> Inl e
                | Inr (found, newTree) \<Rightarrow> Inr newTree))"

section \<open>Inventory items and the commit of an edited tree\<close>

text \<open>
  \<^verbatim>\<open>Filament\<close> (index.tsx, 17-54), with the fields the migration and the tree commit
  read or write; the legacy fields \<^verbatim>\<open>netWeight\<close>, \<^verbatim>\<open>storageLocation\<close>,
  \<^verbatim>\<open>storageZone\<close> and \<^verbatim>\<open>storagePosition\<close> are those \<^verbatim>\<open>migrateData\<close> looks for. A field
  is absent (\<open>None\<close>, \<^verbatim>\<open>undefined\<close>) or holds a value of its type. The remaining
  descriptive fields are copied untouched by every operation here and are left out.
  Weights and lengths are floating-point numbers; their type is the parameter \<open>'n\<close>.
\<close>

record 'n filament =
  id_f :: "string option"
  type_f :: "string option"
  manufacturerColor :: "string option"
  madeDate :: "string option"
  netWeight :: "'n option"
  totalWeight :: "'n option"
  spoolWeight :: "'n option"
  spoolSize :: "'n option"
  spoolLength :: "'n option"
  diameter :: "'n option"
  locationPath :: "string option"
  storageLocation :: "string option"
  storageZone :: "string option"
  storagePosition :: "string option"

text \<open>
  \<^verbatim>\<open>handleSaveStorageTree\<close> (index.tsx, 1546-1561): the paths of the stored tree that
  are no path of the edited tree count as deleted, and every item whose
  \<^verbatim>\<open>locationPath\<close> is one of them (\<^verbatim>\<open>deletedPaths.includes\<close>, equality of strings) gets
  the empty path. Returns the items and the tree that are stored.
\<close>

fun includesPath :: "string list \<Rightarrow> string option \<Rightarrow> bool" where
  "includesPath ps None = False"
| "includesPath ps (Some p) = (p \<in> set ps)"

definition handleSaveStorageTree ::
  "StorageNode list \<Rightarrow> 'n filament list \<Rightarrow> StorageNode list \<Rightarrow> 'n filament list \<times> StorageNode list" where
  "handleSaveStorageTree storageTree filaments newTree =
     (let oldPaths = traverse storageTree;
          newPaths = traverse newTree;
          deletedPaths = filter (\<lambda>p. p \<notin> set newPaths) oldPaths
      in (if deletedPaths \<noteq> []
          then map (\<lambda>f. if includesPath deletedPaths (locationPath f) then f\<lparr>locationPath := Some []\<rparr> else f) filaments
          else filaments,
          newTree))"

section \<open>Observations on trees\<close>

text \<open>
  The paths of every node with path \<open>p\<close> and of all nodes below it; a function applied
  to the path of every node; a string free of regular-expression syntax; the literal
  prefix replacement; and the item update of the commit for a given list of paths.
\<close>

fun removedPaths :: "StorageNode list \<Rightarrow> string \<Rightarrow> string list" where
  "removedPaths [] p = []"
| "removedPaths (StorageNode n q cs # rest) p =
     (if q = p then q # traverse cs @ removedPaths rest p
      else removedPaths cs p @ removedPaths rest p)"

fun mapPaths :: "(string \<Rightarrow> string) \<Rightarrow> StorageNode list \<Rightarrow> StorageNode list" where
  "mapPaths f [] = []"
| "mapPaths f (StorageNode n q cs # rest) = StorageNode n (f q) (mapPaths f cs) # mapPaths f rest"

text \<open>
  The paths below the first node, in pre-order, with path \<open>p\<close>, which is the node a
  rename works on; and the name and path of every node.
\<close>

fun subtreePaths :: "StorageNode list \<Rightarrow> string \<Rightarrow> string list" where
  "subtreePaths [] p = []"
| "subtreePaths (StorageNode n q cs # rest) p =
     (if q = p then traverse cs
      else if p \<in> set (traverse cs) then subtreePaths cs p
      else subtreePaths rest p)"

fun labels :: "StorageNode list \<Rightarrow> (string \<times> string) list" where
  "labels [] = []"
| "labels (StorageNode n q cs # rest) = (n, q) # labels cs @ labels rest"

definition plainText :: "string \<Rightarrow> bool" where
  "plainText s = (\<forall>c \<in> set s. c \<notin> set (''().'' @ unsupportedSyntax))"

definition clearLocation :: "string list \<Rightarrow> 'n filament \<Rightarrow> 'n filament" where
  "clearLocation ps f = (if includesPath ps (locationPath f) then f\<lparr>locationPath := Some []\<rparr> else f)"

definition replacePrefix :: "string \<Rightarrow> string \<Rightarrow> string \<Rightarrow> string" where
  "replacePrefix old new s = (if prefix old s then new @ drop (length old) s else s)"

text \<open>Example data: an item with no field set, an item stored at a path, the tree of the scenarios.\<close>

definition blankFilament :: "'n filament" where
  "blankFilament =
     \<lparr>id_f = None, type_f = None, manufacturerColor = None, madeDate = None, netWeight = None,
      totalWeight = None, spoolWeight = None, spoolSize = None, spoolLength = None, diameter = None,
      locationPath = None, storageLocation = None, storageZone = None, storagePosition = None\<rparr>"

definition storedAt :: "string \<Rightarrow> unit filament" where
  "storedAt p = blankFilament\<lparr>locationPath := Some p\<rparr>"

definition scenarioTree :: "StorageNode list" where
  "scenarioTree =
     [StorageNode ''Shelf1'' ''Shelf1''
        [StorageNode ''BoxA'' ''Shelf1 / BoxA'' [StorageNode ''Bin1'' ''Shelf1 / BoxA / Bin1'' []],
         StorageNode ''BoxA2'' ''Shelf1 / BoxA2'' []]]"

section \<open>The persisted data and its migration\<close>

text \<open>
  The document read from and written to local storage (index.tsx, 1344): the items, the
  location tree, the counters and the printers, each possibly absent in what is read.
  A printer is modelled with the two fields \<^verbatim>\<open>migrateData\<close> touches.
\<close>

record 'n printer =
  id_p :: "string option"
  filamentDiameter :: "'n option"

record 'n appData =
  filaments :: "'n filament list option"
  storageTree :: "StorageNode list option"
  idCounters :: "counters option"
  printers :: "'n printer list option"

text \<open>
  What \<^verbatim>\<open>migrateData\<close> takes from its environment or computes in floating point, as
  parameters: the string \<^verbatim>\<open>crypto.randomUUID()\<close> returns for the printer at a given
  position; the number 1.75; \<^verbatim>\<open>newF.netWeight + newF.spoolWeight\<close> with a spool weight
  that may be absent; the expression
  \<^verbatim>\<open>parseFloat(calculateLength(newF.spoolSize || 1000, newF.diameter || 1.75, newF.type || 'pla').toFixed(2))\<close>
  as a function of the three fields; and \<^verbatim>\<open>String.prototype.localeCompare\<close>, whose order
  depends on the locale.
\<close>

record 'n env =
  randomUUID :: "nat \<Rightarrow> string"
  defaultDiameter :: "'n"
  addNumbers :: "'n \<Rightarrow> 'n option \<Rightarrow> 'n"
  nominalLength :: "'n option \<Rightarrow> 'n option \<Rightarrow> string option \<Rightarrow> 'n"
  localeCompare :: "string \<Rightarrow> string \<Rightarrow> int"

text \<open>
  \<^verbatim>\<open>printers.map(p => ({...p, id: p.id || crypto.randomUUID(), filamentDiameter: p.filamentDiameter ?? 1.75}))\<close>
\<close>

fun migratePrinters :: "'n env \<Rightarrow> nat \<Rightarrow> 'n printer list \<Rightarrow> 'n printer list" where
  "migratePrinters env i [] = []"
| "migratePrinters env i (p # ps) =
     p\<lparr>id_p := Some (orDefault (id_p p) (randomUUID env i)),
       filamentDiameter := Some (case filamentDiameter p of None \<Rightarrow> defaultDiameter env | Some d \<Rightarrow> d)\<rparr>
       # migratePrinters env (Suc i) ps"

text \<open>
  The legacy migration of one item (index.tsx, 178-196): \<^verbatim>\<open>netWeight\<close> becomes
  \<^verbatim>\<open>spoolSize\<close> and, where absent, yields \<^verbatim>\<open>totalWeight\<close>; an absent
  \<^verbatim>\<open>spoolLength\<close> is computed; an absent \<^verbatim>\<open>locationPath\<close> is
  \<^verbatim>\<open>[f.storageLocation, f.storageZone, f.storagePosition].filter(Boolean).join(' / ')\<close>.
  It runs on every item as soon as one item lacks \<^verbatim>\<open>locationPath\<close> or \<^verbatim>\<open>spoolLength\<close>.
\<close>

fun truthy :: "string option \<Rightarrow> bool" where
  "truthy None = False"
| "truthy (Some s) = (s \<noteq> [])"

fun joinWith :: "string \<Rightarrow> string list \<Rightarrow> string" where
  "joinWith sep [] = []"
| "joinWith sep [x] = x"
| "joinWith sep (x # y # ys) = x @ sep @ joinWith sep (y # ys)"

definition legacyLocationPath :: "'n filament \<Rightarrow> string" where
  "legacyLocationPath f =
     joinWith '' / '' (map (\<lambda>s. orDefault s []) (filter truthy [storageLocation f, storageZone f, storagePosition f]))"

definition migrateLegacyFilament :: "'n env \<Rightarrow> 'n filament \<Rightarrow> 'n filament" where
  "migrateLegacyFilament env f =
     (let newF1 = (case netWeight f of
                     None \<Rightarrow> f
                   | Some nw \<Rightarrow>
                       f\<lparr>spoolSize := Some nw,
                         totalWeight := Some (case totalWeight f of
                                                None \<Rightarrow> addNumbers env nw (spoolWeight f)
                                              | Some tw \<Rightarrow> tw),
                         netWeight := None\<rparr>);
          newF2 = (if spoolLength newF1 = None
                   then newF1\<lparr>spoolLength := Some (nominalLength env (spoolSize newF1) (diameter newF1) (type_f newF1))\<rparr>
                   else newF1)
      in if locationPath newF2 = None
         then newF2\<lparr>locationPath := Some (legacyLocationPath f),
                    storageLocation := None, storageZone := None, storagePosition := None\<rparr>
         else newF2)"

definition needsLegacyMigration :: "'n filament list \<Rightarrow> bool" where
  "needsLegacyMigration rawFilaments =
     (rawFilaments \<noteq> [] \<and> list_ex (\<lambda>f. locationPath f = None \<or> spoolLength f = None) rawFilaments)"

text \<open>
  The order of the id migration (index.tsx, 204):
  \<^verbatim>\<open>(a.madeDate || '').localeCompare(b.madeDate || '') || (a.id || '').localeCompare(b.id || '')\<close>.
  \<^verbatim>\<open>Array.prototype.sort\<close> is stable; it is modelled by insertion from the right, which
  is the stable sort for a comparator that is a consistent order.
\<close>

definition compareFilaments :: "'n env \<Rightarrow> 'n filament \<Rightarrow> 'n filament \<Rightarrow> int" where
  "compareFilaments env a b =
     (let byDate = localeCompare env (orDefault (madeDate a) []) (orDefault (madeDate b) [])
      in if byDate \<noteq> 0 then byDate
         else localeCompare env (orDefault (id_f a) []) (orDefault (id_f b) []))"

fun insertBy :: "('a \<Rightarrow> 'a \<Rightarrow> int) \<Rightarrow> 'a \<Rightarrow> 'a list \<Rightarrow> 'a list" where
  "insertBy cmp x [] = [x]"
| "insertBy cmp x (y # ys) = (if cmp x y \<le> 0 then x # y # ys else y # insertBy cmp x ys)"

fun sortBy :: "('a \<Rightarrow> 'a \<Rightarrow> int) \<Rightarrow> 'a list \<Rightarrow> 'a list" where
  "sortBy cmp [] = []"
| "sortBy cmp (x # xs) = insertBy cmp x (sortBy cmp xs)"

text \<open>
  The id migration (index.tsx, 203-211) starts from
  \<^verbatim>\<open>{ colorMap: {}, nextColorNum: 1, typeCounters: {} }\<close> and, per item in sorted order,
  allocates an id and takes over the returned counters with \<^verbatim>\<open>Object.assign\<close>, which
  overwrites the fields present in its source.
\<close>

definition objectAssign :: "counters \<Rightarrow> counters \<Rightarrow> counters" where
  "objectAssign target source =
     \<lparr>colorMap = (case colorMap source of None \<Rightarrow> colorMap target | Some m \<Rightarrow> Some m),
      nextColorNum = (case nextColorNum source of None \<Rightarrow> nextColorNum target | Some n \<Rightarrow> Some n),
      typeCounters = (case typeCounters source of None \<Rightarrow> typeCounters target | Some t \<Rightarrow> Some t),
      version = (case version source of None \<Rightarrow> version target | Some v \<Rightarrow> Some v)\<rparr>"

definition freshCounters :: counters where
  "freshCounters = \<lparr>colorMap = Some Map.empty, nextColorNum = Some (Num 1), typeCounters = Some Map.empty, version = None\<rparr>"

fun regenerateIds :: "counters \<Rightarrow> 'n filament list \<Rightarrow> 'n filament list \<times> counters" where
  "regenerateIds newCounters [] = ([], newCounters)"
| "regenerateIds newCounters (f # fs) =
     (let (newId, updatedCounters) = generateNewIdAndUpdateCounters (type_f f) (manufacturerColor f) newCounters;
          (rest, final) = regenerateIds (objectAssign newCounters updatedCounters) fs
      in (f\<lparr>id_f := Some newId\<rparr> # rest, final))"

text \<open>
  The counter backfill (index.tsx, 214-230). \<^verbatim>\<open>f.id.split('-')\<close> is destructured into
  its first three components; an item with an empty or missing component is skipped.
  \<^verbatim>\<open>parseInt\<close> skips leading white space and a plus sign (a minus sign cannot occur in a
  component), reads hexadecimal digits after \<^verbatim>\<open>0x\<close> and decimal digits otherwise, and
  is \<^verbatim>\<open>NaN\<close> without a digit; \<^verbatim>\<open>Math.max\<close> is \<^verbatim>\<open>NaN\<close> as soon as an argument is.
  Reading \<^verbatim>\<open>split\<close> on an absent id is a \<^verbatim>\<open>TypeError\<close>.
\<close>

fun splitOn :: "char \<Rightarrow> string \<Rightarrow> string list" where
  "splitOn sep [] = [[]]"
| "splitOn sep (c # cs) =
     (if c = sep then [] # splitOn sep cs
      else (case splitOn sep cs of [] \<Rightarrow> [[c]] | w # ws \<Rightarrow> (c # w) # ws))"

definition isWhiteSpace :: "char \<Rightarrow> bool" where
  "isWhiteSpace c = ((9 \<le> (of_char c :: nat) \<and> (of_char c :: nat) \<le> 13) \<or> (of_char c :: nat) = 32)"

definition digitValue :: "char \<Rightarrow> nat option" where
  "digitValue c =
     (let n = (of_char c :: nat)
      in if 48 \<le> n \<and> n \<le> 57 then Some (n - 48)
         else if 97 \<le> n \<and> n \<le> 122 then Some (n - 87)
         else if 65 \<le> n \<and> n \<le> 90 then Some (n - 55)
         else None)"

fun parseDigits :: "nat \<Rightarrow> nat option \<Rightarrow> string \<Rightarrow> nat option" where
  "parseDigits radix acc [] = acc"
| "parseDigits radix acc (c # cs) =
     (case digitValue c of
        None \<Rightarrow> acc
      | Some d \<Rightarrow>
          if d < radix
          then parseDigits radix (Some (radix * (case acc of None \<Rightarrow> 0 | Some a \<Rightarrow> a) + d)) cs
          else acc)"

definition parseInt :: "string \<Rightarrow> jsnum" where
  "parseInt s =
     (let t = dropWhile isWhiteSpace s;
          u = (case t of c # r \<Rightarrow> if c = CHR ''+'' then r else t | [] \<Rightarrow> t);
          parsed = (case u of
                      a # b # r \<Rightarrow>
                        if a = CHR ''0'' \<and> (b = CHR ''x'' \<or> b = CHR ''X'')
                        then parseDigits 16 None r
                        else parseDigits 10 None u
                    | _ \<Rightarrow> parseDigits 10 None u)
      in case parsed of None \<Rightarrow> NaN | Some n \<Rightarrow> Num n)"

definition mathMax :: "jsnum \<Rightarrow> jsnum \<Rightarrow> jsnum" where
  "mathMax a b =
     (case (toNumber (Some a), toNumber (Some b)) of
        (Num x, Num y) \<Rightarrow> Num (max x y)
      | _ \<Rightarrow> NaN)"

definition backfillStep :: "'n filament \<Rightarrow> counters \<Rightarrow> error + counters" where
  "backfillStep f newCounters =
     (case id_f f of
        None \<Rightarrow> Inl TypeError
      | Some i \<Rightarrow>
          (case splitOn (CHR ''-'') i of
             type # spoolNumStr # colorCode # _ \<Rightarrow>
               if type = [] \<or> spoolNumStr = [] \<or> colorCode = [] then Inr newCounters
               else
                 (let tcs = (case typeCounters newCounters of None \<Rightarrow> Map.empty | Some t \<Rightarrow> t);
                      cur = (case tcs type of None \<Rightarrow> Num 1 | Some v \<Rightarrow> v);
                      spoolNum = parseInt spoolNumStr;
                      tcs' = tcs(type \<mapsto> mathMax cur (increment spoolNum));
                      mfgColor = orDefault (manufacturerColor f) ''Unknown'';
                      cmap = (case colorMap newCounters of None \<Rightarrow> Map.empty | Some m \<Rightarrow> m)
                  in case cmap mfgColor of
                       Some (ch # code) \<Rightarrow> Inr (newCounters\<lparr>typeCounters := Some tcs'\<rparr>)
                     | _ \<Rightarrow>
                         Inr (newCounters\<lparr>typeCounters := Some tcs',
                                colorMap := Some (cmap(mfgColor \<mapsto> colorCode)),
                                nextColorNum := Some (mathMax (toNumber (nextColorNum newCounters))
                                                         (increment (parseInt colorCode)))\<rparr>))
           | _ \<Rightarrow> Inr newCounters))"

fun backfillCounters :: "counters \<Rightarrow> 'n filament list \<Rightarrow> error + counters" where
  "backfillCounters newCounters [] = Inr newCounters"
| "backfillCounters newCounters (f # fs) =
     (case backfillStep f newCounters of
        Inl e \<Rightarrow> Inl e
      | Inr c \<Rightarrow> backfillCounters c fs)"

text \<open>
  \<^verbatim>\<open>Object.keys(idCounters).length\<close>, \<^verbatim>\<open>data?.idCounters?.version || 1\<close>, and the choice
  between the three cases of index.tsx, 201-231: \<^verbatim>\<open>if (dataVersion < 3 && length > 0)\<close>
  the ids are regenerated, \<^verbatim>\<open>else if (Object.keys(idCounters).length === 0 && length > 0)\<close>
  the counters are backfilled, otherwise the counters are kept.
\<close>

definition countKeys :: "counters \<Rightarrow> nat" where
  "countKeys c =
     (if colorMap c = None then 0 else 1) + (if nextColorNum c = None then 0 else 1)
     + (if typeCounters c = None then 0 else 1) + (if version c = None then 0 else 1)"

definition dataVersionOf :: "'n appData \<Rightarrow> nat" where
  "dataVersionOf data =
     (case idCounters data of
        None \<Rightarrow> 1
      | Some c \<Rightarrow> (case version c of None \<Rightarrow> 1 | Some v \<Rightarrow> if v = 0 then 1 else v))"

datatype idBranch = RegenerateIds | BackfillCounters | KeepCounters

definition idBranchOf :: "nat \<Rightarrow> counters \<Rightarrow> 'n filament list \<Rightarrow> idBranch" where
  "idBranchOf dataVersion idCounters0 finalFilaments =
     (if dataVersion < 3 \<and> finalFilaments \<noteq> [] then RegenerateIds
      else if countKeys idCounters0 = 0 \<and> finalFilaments \<noteq> [] then BackfillCounters
      else KeepCounters)"

text \<open>\<^verbatim>\<open>migrateData\<close> (index.tsx, 159-236).\<close>

definition migrateData :: "'n env \<Rightarrow> 'n appData \<Rightarrow> error + 'n appData" where
  "migrateData env data =
     (let rawFilaments = (case filaments data of None \<Rightarrow> [] | Some fs \<Rightarrow> fs);
          tree = (case storageTree data of None \<Rightarrow> [] | Some t \<Rightarrow> t);
          idCounters0 = (case idCounters data of None \<Rightarrow> emptyCounters | Some c \<Rightarrow> c);
          printers0 = (case printers data of None \<Rightarrow> [] | Some ps \<Rightarrow> ps);
          dataVersion = dataVersionOf data;
          printers1 = migratePrinters env 0 printers0;
          legacyMigratedFilaments =
            (if needsLegacyMigration rawFilaments then map (migrateLegacyFilament env) rawFilaments
             else rawFilaments);
          result =
            (case idBranchOf dataVersion idCounters0 legacyMigratedFilaments of
               RegenerateIds \<Rightarrow>
                 Inr (regenerateIds freshCounters (sortBy (compareFilaments env) legacyMigratedFilaments))
             | BackfillCounters \<Rightarrow>
                 (case backfillCounters freshCounters legacyMigratedFilaments of
                    Inl e \<Rightarrow> Inl e
                  | Inr c \<Rightarrow> Inr (legacyMigratedFilaments, c))
             | KeepCounters \<Rightarrow> Inr (legacyMigratedFilaments, idCounters0))
      in case result of
           Inl e \<Rightarrow> Inl e
         | Inr (finalFilaments, idCounters1) \<Rightarrow>
             Inr \<lparr>filaments = Some finalFilaments, storageTree = Some tree,
                  idCounters = Some (idCounters1\<lparr>version := Some 3\<rparr>), printers = Some printers1\<rparr>)"

section \<open>Observations on migrated data\<close>

text \<open>
  An item that has both fields the legacy migration looks for; the ids and the counters
  of a migration result.
\<close>

definition complete :: "'n filament \<Rightarrow> bool" where
  "complete f = (locationPath f \<noteq> None \<and> spoolLength f \<noteq> None)"

fun resultIds :: "error + 'n appData \<Rightarrow> string option list" where
  "resultIds (Inl e) = []"
| "resultIds (Inr b) = (case filaments b of None \<Rightarrow> [] | Some fs \<Rightarrow> map id_f fs)"

fun resultCounters :: "error + 'n appData \<Rightarrow> counters" where
  "resultCounters (Inl e) = emptyCounters"
| "resultCounters (Inr b) = (case idCounters b of None \<Rightarrow> emptyCounters | Some c \<Rightarrow> c)"

text \<open>
  Example data. The environment compares strings by code units, which is the order every
  locale gives the ids and dates used below, and draws distinct UUID-shaped strings.
  \<open>scenarioE\<close> is scenario E: two items with current-format ids and no counters.
  \<open>legacyData\<close> is a version-1 document with legacy item fields and a printer without id.
\<close>

definition codeUnitCompare :: "string \<Rightarrow> string \<Rightarrow> int" where
  "codeUnitCompare a b =
     (if a = b then 0
      else if lexordp (\<lambda>x y. (of_char x :: nat) < of_char y) a b then - 1 else 1)"

definition exampleEnv :: "unit env" where
  "exampleEnv = \<lparr>randomUUID = (\<lambda>i. ''123e4567-e89b-42d3-a456-'' @ padStart 12 (CHR ''0'') (natToString i)),
                  defaultDiameter = (), addNumbers = (\<lambda>a b. ()), nominalLength = (\<lambda>s d t. ()),
                  localeCompare = codeUnitCompare\<rparr>"

definition v3Item :: "string \<Rightarrow> string \<Rightarrow> string \<Rightarrow> unit filament" where
  "v3Item i t c = blankFilament\<lparr>id_f := Some i, type_f := Some t, manufacturerColor := Some c,
                                locationPath := Some [], spoolLength := Some ()\<rparr>"

definition scenarioE :: "unit appData" where
  "scenarioE = \<lparr>filaments = Some [v3Item ''PLA-0003-002'' ''PLA'' ''Arctic White'',
                                    v3Item ''ABS-0001-001'' ''ABS'' ''Galaxy Black''],
                 storageTree = None, idCounters = None, printers = None\<rparr>"

definition legacyData :: "unit appData" where
  "legacyData =
     \<lparr>filaments = Some [blankFilament\<lparr>id_f := Some ''7'', type_f := Some ''PETG'',
                                        manufacturerColor := Some ''Galaxy Black'', netWeight := Some (),
                                        storageLocation := Some ''Regal 1'', storageZone := Some ''Fach A''\<rparr>],
      storageTree = None, idCounters = None,
      printers = Some [\<lparr>id_p = None, filamentDiameter = None\<rparr>]\<rparr>"

section \<open>The allocator on a store of objects\<close>

text \<open>
  To say that the allocator does not write to the object it is given, objects need
  identity. A store is a list of cells and an address is an index into it; a new object
  is a cell appended at the end. The counters
  object refers to its colour map and to its table of type counters, and the table
  refers to one object \<^verbatim>\<open>{ nextSpoolNum }\<close> per type code. A dictionary object lists its
  own properties. A lookup that finds no cell, or a cell of another kind than the
  program's types allow, makes the model return \<open>None\<close>: the store is not one of this
  program.
\<close>

type_synonym addr = nat

datatype cell =
    CountersObj "addr option" "jsnum option" "addr option" "nat option"
  | ColorMapObj "(string \<times> string) list"
  | TypeCountersObj "(string \<times> addr) list"
  | TypeCounterObj jsnum

type_synonym heap = "cell list"

definition lookupCell :: "heap \<Rightarrow> addr \<Rightarrow> cell option" where
  "lookupCell h a = (if a < length h then Some (h ! a) else None)"

text \<open>Assigning to a property: an existing key keeps its place, a new key comes last.\<close>

fun setKey :: "string \<Rightarrow> 'v \<Rightarrow> (string \<times> 'v) list \<Rightarrow> (string \<times> 'v) list" where
  "setKey k v [] = [(k, v)]"
| "setKey k v ((k', v') # kvs) = (if k' = k then (k, v) # kvs else (k', v') # setKey k v kvs)"

text \<open>
  \<^verbatim>\<open>JSON.parse(JSON.stringify(currentCounters))\<close> (index.tsx, 113): every object reached
  from the counters is built anew, \<^verbatim>\<open>NaN\<close> turning into \<^verbatim>\<open>null\<close>.
\<close>

fun cloneEntries :: "heap \<Rightarrow> (string \<times> addr) list \<Rightarrow> ((string \<times> addr) list \<times> heap) option" where
  "cloneEntries h [] = Some ([], h)"
| "cloneEntries h ((k, a) # es) =
     (case lookupCell h a of
        Some (TypeCounterObj n) \<Rightarrow>
          (case cloneEntries (h @ [TypeCounterObj (jsonNum n)]) es of
             None \<Rightarrow> None
           | Some (es', h') \<Rightarrow> Some ((k, length h) # es', h'))
      | _ \<Rightarrow> None)"

definition cloneColorMap :: "heap \<Rightarrow> addr option \<Rightarrow> (addr option \<times> heap) option" where
  "cloneColorMap h cm =
     (case cm of
        None \<Rightarrow> Some (None, h)
      | Some a \<Rightarrow>
          (case lookupCell h a of
             Some (ColorMapObj kvs) \<Rightarrow> Some (Some (length h), h @ [ColorMapObj kvs])
           | _ \<Rightarrow> None))"

definition cloneTypeCounters :: "heap \<Rightarrow> addr option \<Rightarrow> (addr option \<times> heap) option" where
  "cloneTypeCounters h tc =
     (case tc of
        None \<Rightarrow> Some (None, h)
      | Some a \<Rightarrow>
          (case lookupCell h a of
             Some (TypeCountersObj es) \<Rightarrow>
               (case cloneEntries h es of
                  None \<Rightarrow> None
                | Some (es', h') \<Rightarrow> Some (Some (length h'), h' @ [TypeCountersObj es']))
           | _ \<Rightarrow> None))"

definition jsonCopyH :: "heap \<Rightarrow> addr \<Rightarrow> (addr \<times> heap) option" where
  "jsonCopyH h r =
     (case lookupCell h r of
        Some (CountersObj cm nc tc v) \<Rightarrow>
          (case cloneColorMap h cm of
             None \<Rightarrow> None
           | Some (cm', h1) \<Rightarrow>
               (case cloneTypeCounters h1 tc of
                  None \<Rightarrow> None
                | Some (tc', h2) \<Rightarrow>
                    Some (length h2, h2 @ [CountersObj cm' (map_option jsonNum nc) tc' v])))
      | _ \<Rightarrow> None)"

text \<open>
  The statements of index.tsx, 115-131, one definition each, all working on the copy:
  \<^verbatim>\<open>if (!countersCopy.colorMap) { countersCopy.colorMap = {}; countersCopy.nextColorNum = 1; }\<close>,
  \<^verbatim>\<open>if (!countersCopy.typeCounters) countersCopy.typeCounters = {}\<close>,
  \<^verbatim>\<open>if (!countersCopy.typeCounters[type]) countersCopy.typeCounters[type] = { nextSpoolNum: 1 }\<close>,
  \<^verbatim>\<open>if (!countersCopy.colorMap[mfgColor]) countersCopy.colorMap[mfgColor] = (countersCopy.nextColorNum++).toString().padStart(3, '0')\<close>,
  \<^verbatim>\<open>(countersCopy.typeCounters[type].nextSpoolNum++).toString().padStart(4, '0')\<close> and
  \<^verbatim>\<open>countersCopy.colorMap[mfgColor]\<close>.
\<close>

definition ensureColorMap :: "heap \<Rightarrow> addr \<Rightarrow> heap option" where
  "ensureColorMap h cc =
     (case lookupCell h cc of
        Some (CountersObj None nc tc v) \<Rightarrow>
          Some ((h @ [ColorMapObj []])[cc := CountersObj (Some (length h)) (Some (Num 1)) tc v])
      | Some (CountersObj (Some m) nc tc v) \<Rightarrow> Some h
      | _ \<Rightarrow> None)"

definition ensureTypeCounters :: "heap \<Rightarrow> addr \<Rightarrow> heap option" where
  "ensureTypeCounters h cc =
     (case lookupCell h cc of
        Some (CountersObj cm nc None v) \<Rightarrow>
          Some ((h @ [TypeCountersObj []])[cc := CountersObj cm nc (Some (length h)) v])
      | Some (CountersObj cm nc (Some t) v) \<Rightarrow> Some h
      | _ \<Rightarrow> None)"

definition ensureTypeEntry :: "string \<Rightarrow> heap \<Rightarrow> addr \<Rightarrow> heap option" where
  "ensureTypeEntry type h cc =
     (case lookupCell h cc of
        Some (CountersObj cm nc (Some t) v) \<Rightarrow>
          (case lookupCell h t of
             Some (TypeCountersObj es) \<Rightarrow>
               (case map_of es type of
                  None \<Rightarrow> Some ((h @ [TypeCounterObj (Num 1)])[t := TypeCountersObj (es @ [(type, length h)])])
                | Some a \<Rightarrow> Some h)
           | _ \<Rightarrow> None)
      | _ \<Rightarrow> None)"

definition assignColorCode :: "string \<Rightarrow> heap \<Rightarrow> addr \<Rightarrow> heap option" where
  "assignColorCode mfgColor h cc =
     (case lookupCell h cc of
        Some (CountersObj (Some m) nc tc v) \<Rightarrow>
          (case lookupCell h m of
             Some (ColorMapObj kvs) \<Rightarrow>
               (case map_of kvs mfgColor of
                  Some (ch # code) \<Rightarrow> Some h
                | _ \<Rightarrow>
                    Some (h[cc := CountersObj (Some m) (Some (increment (toNumber nc))) tc v,
                            m := ColorMapObj (setKey mfgColor (padStart 3 (CHR ''0'') (numToString (toNumber nc))) kvs)]))
           | _ \<Rightarrow> None)
      | _ \<Rightarrow> None)"

definition takeSpoolNum :: "string \<Rightarrow> heap \<Rightarrow> addr \<Rightarrow> (string \<times> heap) option" where
  "takeSpoolNum type h cc =
     (case lookupCell h cc of
        Some (CountersObj cm nc (Some t) v) \<Rightarrow>
          (case lookupCell h t of
             Some (TypeCountersObj es) \<Rightarrow>
               (case map_of es type of
                  Some a \<Rightarrow>
                    (case lookupCell h a of
                       Some (TypeCounterObj n) \<Rightarrow>
                         Some (padStart 4 (CHR ''0'') (numToString (toNumber (Some n))),
                               h[a := TypeCounterObj (increment (toNumber (Some n)))])
                     | _ \<Rightarrow> None)
                | None \<Rightarrow> None)
           | _ \<Rightarrow> None)
      | _ \<Rightarrow> None)"

definition readColorCode :: "string \<Rightarrow> heap \<Rightarrow> addr \<Rightarrow> string option" where
  "readColorCode mfgColor h cc =
     (case lookupCell h cc of
        Some (CountersObj (Some m) nc tc v) \<Rightarrow>
          (case lookupCell h m of
             Some (ColorMapObj kvs) \<Rightarrow> map_of kvs mfgColor
           | _ \<Rightarrow> None)
      | _ \<Rightarrow> None)"

text \<open>
  \<^verbatim>\<open>generateNewIdAndUpdateCounters\<close> on the store: it takes the address of the caller's
  counters and returns the new id, the address of the updated counters and the store.
\<close>

definition generateNewIdAndUpdateCountersH ::
  "string option \<Rightarrow> string option \<Rightarrow> heap \<Rightarrow> addr \<Rightarrow> ((string \<times> addr) \<times> heap) option" where
  "generateNewIdAndUpdateCountersH typeStr mfgColorStr h currentCounters =
     (let type = typeCode typeStr;
          mfgColor = orDefault mfgColorStr ''Unknown''
      in case jsonCopyH h currentCounters of
           None \<Rightarrow> None
         | Some (countersCopy, h1) \<Rightarrow>
        (case ensureColorMap h1 countersCopy of
           None \<Rightarrow> None
         | Some h2 \<Rightarrow>
        (case ensureTypeCounters h2 countersCopy of
           None \<Rightarrow> None
         | Some h3 \<Rightarrow>
        (case ensureTypeEntry type h3 countersCopy of
           None \<Rightarrow> None
         | Some h4 \<Rightarrow>
        (case assignColorCode mfgColor h4 countersCopy of
           None \<Rightarrow> None
         | Some h5 \<Rightarrow>
        (case takeSpoolNum type h5 countersCopy of
           None \<Rightarrow> None
         | Some (spoolNum, h6) \<Rightarrow>
        (case readColorCode mfgColor h6 countersCopy of
           None \<Rightarrow> None
         | Some colorCode \<Rightarrow>
             Some ((type @ ''-'' @ spoolNum @ ''-'' @ colorCode, countersCopy), h6))))))))"

text \<open>
  The copy at \<open>cc\<close> is made of cells from address \<open>n\<close> on: the counters object, its
  colour map, its table of type counters and the counter objects in the table.
\<close>

definition own :: "nat \<Rightarrow> heap \<Rightarrow> addr \<Rightarrow> bool" where
  "own n h cc =
     (n \<le> cc \<and>
      (case lookupCell h cc of
         Some (CountersObj cm nc tc v) \<Rightarrow>
           (case cm of None \<Rightarrow> True | Some m \<Rightarrow> n \<le> m) \<and>
           (case tc of
              None \<Rightarrow> True
            | Some t \<Rightarrow>
                n \<le> t \<and>
                (case lookupCell h t of
                   Some (TypeCountersObj es) \<Rightarrow> list_all (\<lambda>e. n \<le> snd e) es
                 | _ \<Rightarrow> True))
       | _ \<Rightarrow> True))"

section \<open>Observations on the store\<close>

text \<open>
  The counters at an address, read as a value: the dictionaries become maps, and
  \<open>None\<close> says that the address does not hold well-formed counters.
\<close>

fun readEntries :: "heap \<Rightarrow> (string \<times> addr) list \<Rightarrow> (string \<times> jsnum) list option" where
  "readEntries h [] = Some []"
| "readEntries h ((k, a) # es) =
     (case lookupCell h a of
        Some (TypeCounterObj n) \<Rightarrow> map_option (Cons (k, n)) (readEntries h es)
      | _ \<Rightarrow> None)"

definition readColorMap :: "heap \<Rightarrow> addr option \<Rightarrow> (string \<rightharpoonup> string) option option" where
  "readColorMap h cm =
     (case cm of
        None \<Rightarrow> Some None
      | Some m \<Rightarrow> (case lookupCell h m of Some (ColorMapObj kvs) \<Rightarrow> Some (Some (map_of kvs)) | _ \<Rightarrow> None))"

definition readTypeCounters :: "heap \<Rightarrow> addr option \<Rightarrow> (string \<rightharpoonup> jsnum) option option" where
  "readTypeCounters h tc =
     (case tc of
        None \<Rightarrow> Some None
      | Some t \<Rightarrow>
          (case lookupCell h t of
             Some (TypeCountersObj es) \<Rightarrow> map_option (\<lambda>kvs. Some (map_of kvs)) (readEntries h es)
           | _ \<Rightarrow> None))"

definition readCounters :: "heap \<Rightarrow> addr \<Rightarrow> counters option" where
  "readCounters h r =
     (case lookupCell h r of
        Some (CountersObj cm nc tc v) \<Rightarrow>
          (case readColorMap h cm of
             None \<Rightarrow> None
           | Some cmv \<Rightarrow>
               (case readTypeCounters h tc of
                  None \<Rightarrow> None
                | Some tcv \<Rightarrow> Some \<lparr>colorMap = cmv, nextColorNum = nc, typeCounters = tcv, version = v\<rparr>))
      | _ \<Rightarrow> None)"

text \<open>
  No two type codes of the copy share a counter object; and a store that has grown from
  another without changing its cells.
\<close>

definition separate :: "heap \<Rightarrow> addr \<Rightarrow> bool" where
  "separate h cc =
     (case lookupCell h cc of
        Some (CountersObj cm nc (Some t) v) \<Rightarrow>
          (case lookupCell h t of Some (TypeCountersObj es) \<Rightarrow> distinct (map snd es) | _ \<Rightarrow> True)
      | _ \<Rightarrow> True)"

definition extends :: "heap \<Rightarrow> heap \<Rightarrow> bool" where
  "extends h h' = (length h \<le> length h' \<and> take (length h) h' = h)"

text \<open>
  The statements of index.tsx, 115-128, on counters as values, and the counters they yield
  from the copy before the spool number is taken.
\<close>

definition ensureColorMapV :: "counters \<Rightarrow> counters" where
  "ensureColorMapV c =
     (if colorMap c = None then c\<lparr>colorMap := Some Map.empty, nextColorNum := Some (Num 1)\<rparr> else c)"

definition ensureTypeCountersV :: "counters \<Rightarrow> counters" where
  "ensureTypeCountersV c = (if typeCounters c = None then c\<lparr>typeCounters := Some Map.empty\<rparr> else c)"

definition ensureTypeEntryV :: "string \<Rightarrow> counters \<Rightarrow> counters" where
  "ensureTypeEntryV type c =
     (case typeCounters c of
        None \<Rightarrow> c
      | Some tcs \<Rightarrow> (case tcs type of None \<Rightarrow> c\<lparr>typeCounters := Some (tcs(type \<mapsto> Num 1))\<rparr> | Some n \<Rightarrow> c))"

definition assignColorCodeV :: "string \<Rightarrow> counters \<Rightarrow> counters" where
  "assignColorCodeV mfgColor c =
     (case colorMap c of
        None \<Rightarrow> c
      | Some cmap \<Rightarrow>
          (case cmap mfgColor of
             Some (ch # code) \<Rightarrow> c
           | _ \<Rightarrow> c\<lparr>colorMap := Some (cmap(mfgColor \<mapsto> padStart 3 (CHR ''0'') (numToString (toNumber (nextColorNum c))))),
                    nextColorNum := Some (increment (toNumber (nextColorNum c)))\<rparr>))"

definition prepared :: "string \<Rightarrow> string \<Rightarrow> counters \<Rightarrow> counters" where
  "prepared type mfgColor c =
     assignColorCodeV mfgColor (ensureTypeEntryV type (ensureTypeCountersV (ensureColorMapV (jsonCopy c))))"

text \<open>
  Example data: a store holding counters with one colour and one type, and the same
  counters as a value.
\<close>

definition exampleHeap :: heap where
  "exampleHeap =
     [CountersObj (Some 1) (Some (Num 2)) (Some 2) (Some 3),
      ColorMapObj [(''Galaxy Black'', ''001'')],
      TypeCountersObj [(''PLA'', 3)],
      TypeCounterObj (Num 2)]"

definition exampleCounters :: counters where
  "exampleCounters =
     \<lparr>colorMap = Some [''Galaxy Black'' \<mapsto> ''001''], nextColorNum = Some (Num 2),
      typeCounters = Some [''PLA'' \<mapsto> Num 2], version = Some 3\<rparr>"

section \<open>Properties of the identity allocator\<close>















lemma toNumber_entry:
  "toNumber (Some (case (case typeCounters (jsonCopy cs) of None \<Rightarrow> Map.empty | Some t \<Rightarrow> t) t of
                      None \<Rightarrow> Num 1 | Some v \<Rightarrow> v)) = Num (spoolCounter cs t)"
  by (simp add: jsonCopy_def spoolCounter_def split: option.splits jsnum.splits)


















text \<open>
  C7. Colour codes belong to the colour label alone. From empty counters the three
  allocations (PLA, Galaxy Black), (PETG, Galaxy Black), (PLA, Arctic White) return
  PLA-0001-001, PETG-0001-001 and PLA-0002-002; and for any counters and any two material
  types, allocating the same colour label yields the same colour code, the same colour
  map and the same next colour number.
\<close>

theorem color_code_per_label_not_per_type:
  "fst (allocateAll emptyCounters
         [(Some ''PLA'', Some ''Galaxy Black''), (Some ''PETG'', Some ''Galaxy Black''),
          (Some ''PLA'', Some ''Arctic White'')])
     = [''PLA-0001-001'', ''PETG-0001-001'', ''PLA-0002-002'']
   \<and> (\<forall>ty1 ty2 col cs. \<exists>code.
         fst (generateNewIdAndUpdateCounters ty1 col cs) =
           typeCode ty1 @ ''-'' @ padStart 4 (CHR ''0'') (natToString (spoolCounter cs (typeCode ty1))) @ ''-'' @ code
       \<and> fst (generateNewIdAndUpdateCounters ty2 col cs) =
           typeCode ty2 @ ''-'' @ padStart 4 (CHR ''0'') (natToString (spoolCounter cs (typeCode ty2))) @ ''-'' @ code
       \<and> colorMap (snd (generateNewIdAndUpdateCounters ty1 col cs)) =
           colorMap (snd (generateNewIdAndUpdateCounters ty2 col cs))
       \<and> nextColorNum (snd (generateNewIdAndUpdateCounters ty1 col cs)) =
           nextColorNum (snd (generateNewIdAndUpdateCounters ty2 col cs)))"
proof
  show "fst (allocateAll emptyCounters
         [(Some ''PLA'', Some ''Galaxy Black''), (Some ''PETG'', Some ''Galaxy Black''),
          (Some ''PLA'', Some ''Arctic White'')])
     = [''PLA-0001-001'', ''PETG-0001-001'', ''PLA-0002-002'']"
    by code_simp
next
  show "\<forall>ty1 ty2 col cs. \<exists>code.
         fst (generateNewIdAndUpdateCounters ty1 col cs) =
           typeCode ty1 @ ''-'' @ padStart 4 (CHR ''0'') (natToString (spoolCounter cs (typeCode ty1))) @ ''-'' @ code
       \<and> fst (generateNewIdAndUpdateCounters ty2 col cs) =
           typeCode ty2 @ ''-'' @ padStart 4 (CHR ''0'') (natToString (spoolCounter cs (typeCode ty2))) @ ''-'' @ code
       \<and> colorMap (snd (generateNewIdAndUpdateCounters ty1 col cs)) =
           colorMap (snd (generateNewIdAndUpdateCounters ty2 col cs))
       \<and> nextColorNum (snd (generateNewIdAndUpdateCounters ty1 col cs)) =
           nextColorNum (snd (generateNewIdAndUpdateCounters ty2 col cs))"
    by (simp add: generateNewIdAndUpdateCounters_def Let_def case_prod_beta toNumber_entry)
qed

text \<open>
  C8. The type code is the upper-cased input with everything outside A-Z and 0-9 removed,
  cut to four characters, and the id is the type code, the spool number padded to four
  digits and the colour code, joined by dashes. The default \<^verbatim>\<open>UNK\<close> is applied to the
  input before it is normalised, so an input that is not empty but normalises to the
  empty string keeps the empty type code: for \<^verbatim>\<open>---\<close> the allocator returns the id
  \<^verbatim>\<open>-0001-001\<close>, while the absent and the empty input do give \<^verbatim>\<open>UNK\<close>.
\<close>

theorem typeCode_empty_after_normalisation:
  "typeCode (Some ''---'') = []
   \<and> fst (generateNewIdAndUpdateCounters (Some ''---'') (Some ''Galaxy Black'') emptyCounters) = ''-0001-001''
   \<and> typeCode None = ''UNK'' \<and> typeCode (Some []) = ''UNK''"
  by code_simp




section \<open>Properties of the location tree\<close>

lemma findAndDelete_mset:
  "mset (traverse t) = mset (traverse (findAndDelete t p)) + mset (removedPaths t p)"
  by (induction t p rule: findAndDelete.induct) auto

lemma findAndDelete_absent: "p \<notin> set (traverse (findAndDelete t p))"
  by (induction t p rule: findAndDelete.induct) auto



lemma findAndDelete_paths:
  assumes "distinct (traverse t)"
  shows "set (traverse t) - set (traverse (findAndDelete t p)) = set (removedPaths t p)"
proof -
  have "mset (traverse t) = mset (traverse (findAndDelete t p) @ removedPaths t p)"
    by (simp add: findAndDelete_mset)
  then have d: "distinct (traverse (findAndDelete t p) @ removedPaths t p)"
    and s: "set (traverse t) = set (traverse (findAndDelete t p) @ removedPaths t p)"
    using assms by (metis mset_eq_imp_distinct_iff, metis mset_eq_setD)
  from d s show ?thesis by auto
qed

lemma handleSaveStorageTree_eq:
  assumes "set (traverse stored) - set (traverse newTree) = set ps"
  shows "handleSaveStorageTree stored items newTree = (map (clearLocation ps) items, newTree)"
proof -
  let ?deleted = "filter (\<lambda>p. p \<notin> set (traverse newTree)) (traverse stored)"
  have ds: "set ?deleted = set ps" using assms by auto
  have same: "includesPath ?deleted x = includesPath ps x" for x
    by (cases x) (simp_all only: includesPath.simps ds)
  show ?thesis
  proof (cases "?deleted = []")
    case True
    then have "set ps = {}" using ds by simp
    then have "clearLocation ps f = f" for f :: "'a filament"
      by (cases "locationPath f") (simp_all add: clearLocation_def)
    then have "map (clearLocation ps) items = items" by (simp add: map_idI)
    with True show ?thesis by (simp add: handleSaveStorageTree_def)
  next
    case False
    then show ?thesis
      by (simp add: handleSaveStorageTree_def clearLocation_def same)
  qed
qed

lemma parsePattern_plain: "plainText s \<Longrightarrow> parsePattern d s = (if d = 0 then Inr (map RxChar s) else Inl SyntaxError)"
  by (induction s) (auto simp add: plainText_def)

lemma matchPrefix_chars:
  "matchPrefix (map RxChar old) s = (if prefix old s then Some (drop (length old) s) else None)"
  by (induction "map RxChar old" s arbitrary: old rule: matchPrefix.induct) auto

lemma replacePrefixRegExp_plain:
  assumes "plainText old" and "CHR ''$'' \<notin> set new"
  shows "replacePrefixRegExp old new s = Inr (replacePrefix old new s)"
  using assms by (simp add: replacePrefixRegExp_def parsePattern_plain matchPrefix_chars replacePrefix_def)


lemma updateChildPaths_plain:
  "plainText old \<Longrightarrow> CHR ''$'' \<notin> set new \<Longrightarrow>
     updateChildPaths cs old new = Inr (mapPaths (replacePrefix old new) cs)"
  by (induction cs old new rule: updateChildPaths.induct)
    (simp_all add: replacePrefixRegExp_plain)

lemma updateChildPaths_length:
  "updateChildPaths cs old new = Inr cs' \<Longrightarrow> length (traverse cs') = length (traverse cs)"
  by (induction cs old new arbitrary: cs' rule: updateChildPaths.induct)
    (auto split: sum.splits)

lemma findAndRename_shape:
  "findAndRename newName p t = Inr (found, t') \<Longrightarrow>
     (found \<longleftrightarrow> p \<in> set (traverse t))
     \<and> (found \<longrightarrow> renamedPath p newName \<in> set (traverse t'))
     \<and> (\<not> found \<longrightarrow> t' = t)
     \<and> length (traverse t') = length (traverse t)"
proof (induction newName p t arbitrary: found t' rule: findAndRename.induct)
  case (1 newName p)
  then show ?case by simp
next
  case (2 newName p n q cs rest)
  show ?case
  proof (cases "q = p")
    case True
    with "2.prems" show ?thesis
      by (auto split: sum.splits dest: updateChildPaths_length)
  next
    case False
    from "2.prems" False obtain b cs' where inner: "findAndRename newName p cs = Inr (b, cs')"
      by (auto split: sum.splits)
    note ih1 = "2.IH"(1) [OF False inner]
    show ?thesis
    proof (cases b)
      case True
      with "2.prems" False inner ih1 show ?thesis by auto
    next
      case nb: False
      from "2.prems" False inner nb obtain rest'
        where outer: "findAndRename newName p rest = Inr (found, rest')" and t': "t' = StorageNode n q cs # rest'"
        by (auto split: sum.splits)
      have "b = False" using nb by simp
      note ih2 = "2.IH"(2) [OF False inner refl this outer]
      from ih1 nb ih2 False t' show ?thesis by auto
    qed
  qed
qed



lemma traverse_append: "traverse (xs @ ys) = traverse xs @ traverse ys"
  by (induction xs rule: traverse.induct) auto

lemma findAndAdd_shape:
  "findAndAdd newNode p t = (found, t') \<Longrightarrow>
     (found \<longleftrightarrow> p \<in> set (traverse t))
     \<and> (\<not> found \<longrightarrow> t' = t)
     \<and> mset (traverse t') = mset (traverse t) + (if found then mset (traverse [newNode]) else {#})"
proof (induction newNode p t arbitrary: found t' rule: findAndAdd.induct)
  case (1 newNode p)
  then show ?case by simp
next
  case (2 newNode p n q cs rest)
  show ?case
  proof (cases "q = p")
    case True
    with "2.prems" show ?thesis by (auto simp add: traverse_append)
  next
    case False
    obtain b cs' where inner: "findAndAdd newNode p cs = (b, cs')" by force
    note ih1 = "2.IH"(1) [OF False inner]
    show ?thesis
    proof (cases b)
      case True
      with "2.prems" False inner ih1 show ?thesis by auto
    next
      case nb: False
      then have bF: "b = False" by simp
      obtain b2 rest' where outer: "findAndAdd newNode p rest = (b2, rest')" by force
      note ih2 = "2.IH"(2) [OF False inner [symmetric] bF outer]
      from "2.prems" False inner bF outer have "found = b2" and "t' = StorageNode n q cs # rest'"
        by auto
      with ih1 nb ih2 False show ?thesis by auto
    qed
  qed
qed

lemma findAndRename_label:
  "findAndRename newName p t = Inr (found, t') \<Longrightarrow> found \<Longrightarrow>
     (newName, renamedPath p newName) \<in> set (labels t')"
proof (induction newName p t arbitrary: found t' rule: findAndRename.induct)
  case (1 newName p)
  then show ?case by simp
next
  case (2 newName p n q cs rest)
  show ?case
  proof (cases "q = p")
    case True
    with "2.prems" show ?thesis by (auto split: sum.splits)
  next
    case False
    from "2.prems" False obtain b cs' where inner: "findAndRename newName p cs = Inr (b, cs')"
      by (auto split: sum.splits)
    show ?thesis
    proof (cases b)
      case True
      from "2.IH"(1) [OF False inner True] "2.prems" False inner True show ?thesis by auto
    next
      case nb: False
      from "2.prems" False inner nb obtain rest'
        where outer: "findAndRename newName p rest = Inr (found, rest')" and t': "t' = StorageNode n q cs # rest'"
        by (auto split: sum.splits)
      have "b = False" using nb by simp
      from "2.IH"(2) [OF False inner refl this outer "2.prems"(2)] t' show ?thesis by simp
    qed
  qed
qed

lemma findAndRename_mset:
  "findAndRename newName p t = Inr (found, t') \<Longrightarrow> p \<in> set (traverse t) \<Longrightarrow>
     \<exists>sub'. mset (traverse t') + mset (p # subtreePaths t p)
              = mset (traverse t) + mset (renamedPath p newName # sub')"
proof (induction newName p t arbitrary: found t' rule: findAndRename.induct)
  case (1 newName p)
  then show ?case by simp
next
  case (2 newName p n q cs rest)
  show ?case
  proof (cases "q = p")
    case True
    with "2.prems" obtain cs' where t': "t' = StorageNode newName (renamedPath p newName) cs' # rest"
      by (auto split: sum.splits)
    have "mset (traverse t') + mset (p # subtreePaths (StorageNode n q cs # rest) p)
            = mset (traverse (StorageNode n q cs # rest)) + mset (renamedPath p newName # traverse cs')"
      using True t' by simp
    then show ?thesis by blast
  next
    case False
    from "2.prems" False obtain b cs' where inner: "findAndRename newName p cs = Inr (b, cs')"
      by (auto split: sum.splits)
    from findAndRename_shape [OF inner] have bfound: "b \<longleftrightarrow> p \<in> set (traverse cs)" by simp
    show ?thesis
    proof (cases b)
      case True
      then have mem: "p \<in> set (traverse cs)" using bfound by simp
      from "2.IH"(1) [OF False inner mem] obtain sub' where
        e: "mset (traverse cs') + mset (p # subtreePaths cs p) = mset (traverse cs) + mset (renamedPath p newName # sub')"
        by blast
      from "2.prems" False inner True have t': "t' = StorageNode n q cs' # rest" by simp
      have "mset (traverse t') + mset (p # subtreePaths (StorageNode n q cs # rest) p)
            = add_mset q (mset (traverse rest) + (mset (traverse cs') + mset (p # subtreePaths cs p)))"
        using False mem t' by simp
      also have "\<dots> = mset (traverse (StorageNode n q cs # rest)) + mset (renamedPath p newName # sub')"
        by (simp only: e) simp
      finally show ?thesis by blast
    next
      case nb: False
      then have nmem: "p \<notin> set (traverse cs)" using bfound by simp
      with "2.prems"(2) False have mem: "p \<in> set (traverse rest)" by simp
      from "2.prems" False inner nb obtain rest'
        where outer: "findAndRename newName p rest = Inr (found, rest')" and t': "t' = StorageNode n q cs # rest'"
        by (auto split: sum.splits)
      have "b = False" using nb by simp
      from "2.IH"(2) [OF False inner refl this outer mem] obtain sub' where
        e: "mset (traverse rest') + mset (p # subtreePaths rest p) = mset (traverse rest) + mset (renamedPath p newName # sub')"
        by blast
      have "mset (traverse t') + mset (p # subtreePaths (StorageNode n q cs # rest) p)
            = add_mset q (mset (traverse cs) + (mset (traverse rest') + mset (p # subtreePaths rest p)))"
        using False nmem t' by simp
      also have "\<dots> = mset (traverse (StorageNode n q cs # rest)) + mset (renamedPath p newName # sub')"
        by (simp only: e) simp
      finally show ?thesis by blast
    qed
  qed
qed

lemma findAndRename_count:
  assumes "findAndRename newName p t = Inr (found, t')" and "p \<in> set (traverse t)"
    and "renamedPath p newName \<notin> set (p # subtreePaths t p)"
  shows "Suc (count_list (traverse t) (renamedPath p newName)) \<le> count_list (traverse t') (renamedPath p newName)"
proof -
  let ?new = "renamedPath p newName"
  from findAndRename_mset [OF assms(1,2)] obtain sub' where
    e: "mset (traverse t') + mset (p # subtreePaths t p) = mset (traverse t) + mset (?new # sub')"
    by blast
  from assms(3) have ne: "p \<noteq> ?new" and "?new \<notin> set (subtreePaths t p)" by auto
  then have z: "count_list (subtreePaths t p) ?new = 0" by (simp add: count_list_0_iff)
  from e have "count (mset (traverse t') + mset (p # subtreePaths t p)) ?new
                 = count (mset (traverse t) + mset (?new # sub')) ?new"
    by (rule arg_cong)
  then have "count_list (traverse t') ?new + count_list (p # subtreePaths t p) ?new
               = count_list (traverse t) ?new + count_list (?new # sub') ?new"
    by (simp only: count_union count_mset)
  with ne z show ?thesis by simp
qed

lemma findAndRename_returns:
  "plainText p \<Longrightarrow> CHR ''$'' \<notin> set (renamedPath p newName) \<Longrightarrow>
     \<exists>found t'. findAndRename newName p t = Inr (found, t')"
proof (induction newName p t rule: findAndRename.induct)
  case (1 newName p)
  show ?case by auto
next
  case (2 newName p n q cs rest)
  show ?case
  proof (cases "q = p")
    case True
    with "2.prems" show ?thesis by (auto simp add: updateChildPaths_plain)
  next
    case False
    from "2.IH"(1) [OF False "2.prems"] obtain b cs' where inner: "findAndRename newName p cs = Inr (b, cs')"
      by blast
    show ?thesis
    proof (cases b)
      case True
      with False inner show ?thesis by auto
    next
      case nb: False
      have "b = False" using nb by simp
      from "2.IH"(2) [OF False inner refl this "2.prems"] obtain found rest'
        where "findAndRename newName p rest = Inr (found, rest')" by blast
      with False inner nb show ?thesis by auto
    qed
  qed
qed

text \<open>
  C2, as the code has it. Neither handler looks for an existing path and neither has a
  \<^verbatim>\<open>DuplicatePath\<close> failure. With a non-empty name, add at the root appends the node,
  and add below an existing parent path yields a tree with the new path once more than
  before, whether or not the path was there. A rename that returns, for an existing
  path and a new name that is neither empty nor the old one, yields a tree of the same
  size in which a node has the new name and the new path, and in which the new path
  occurs at least once more than before unless it is the old path or a path below the
  renamed node; so it occurs twice when another node had it. Where the old path is free
  of regular-expression syntax and the new path holds no \<^verbatim>\<open>$\<close>, the rename does
  return such a tree. The tree is returned unchanged when the prompt is cancelled or
  empty, and for a rename also when the new name is the old one.
\<close>

theorem add_and_rename_without_duplicate_check:
  "handleAdd tree p None = tree \<and> handleAdd tree p (Some []) = tree
   \<and> (nm \<noteq> [] \<longrightarrow> handleAdd tree [] (Some nm) = tree @ [StorageNode nm nm []])
   \<and> (nm \<noteq> [] \<longrightarrow> p \<noteq> [] \<longrightarrow> p \<in> set (traverse tree) \<longrightarrow>
        mset (traverse (handleAdd tree p (Some nm))) = add_mset (p @ '' / '' @ nm) (mset (traverse tree)))
   \<and> handleRename tree p oldName None = Inr tree
   \<and> handleRename tree p oldName (Some []) = Inr tree
   \<and> handleRename tree p oldName (Some oldName) = Inr tree
   \<and> (newName \<noteq> [] \<longrightarrow> newName \<noteq> oldName \<longrightarrow> p \<in> set (traverse tree) \<longrightarrow>
        handleRename tree p oldName (Some newName) = Inr tree' \<longrightarrow>
        renamedPath p newName \<in> set (traverse tree') \<and> length (traverse tree') = length (traverse tree)
        \<and> (newName, renamedPath p newName) \<in> set (labels tree')
        \<and> (renamedPath p newName \<notin> set (p # subtreePaths tree p) \<longrightarrow>
             Suc (count_list (traverse tree) (renamedPath p newName))
               \<le> count_list (traverse tree') (renamedPath p newName)))
   \<and> (newName \<noteq> [] \<longrightarrow> newName \<noteq> oldName \<longrightarrow> p \<in> set (traverse tree) \<longrightarrow>
        plainText p \<longrightarrow> CHR ''$'' \<notin> set (renamedPath p newName) \<longrightarrow>
        renamedPath p newName \<notin> set (p # subtreePaths tree p) \<longrightarrow>
        (\<exists>t'. handleRename tree p oldName (Some newName) = Inr t'
           \<and> (newName, renamedPath p newName) \<in> set (labels t')
           \<and> Suc (count_list (traverse tree) (renamedPath p newName))
                 \<le> count_list (traverse t') (renamedPath p newName)))"
proof (intro conjI impI)
  show "handleAdd tree p None = tree" and "handleAdd tree p (Some []) = tree"
    by (simp_all add: handleAdd_def)
  show "handleRename tree p oldName None = Inr tree"
    and "handleRename tree p oldName (Some []) = Inr tree"
    and "handleRename tree p oldName (Some oldName) = Inr tree"
    by (simp_all add: handleRename_def)
next
  assume "nm \<noteq> []"
  then show "handleAdd tree [] (Some nm) = tree @ [StorageNode nm nm []]"
    by (simp add: handleAdd_def)
next
  assume nm: "nm \<noteq> []" and p: "p \<noteq> []" and mem: "p \<in> set (traverse tree)"
  let ?node = "StorageNode nm (p @ '' / '' @ nm) []"
  obtain found t' where r: "findAndAdd ?node p tree = (found, t')" by force
  from findAndAdd_shape [OF r] mem
  have "mset (traverse t') = mset (traverse tree) + mset (traverse [?node])" by simp
  moreover have "handleAdd tree p (Some nm) = t'" using nm p r by (simp add: handleAdd_def)
  ultimately show "mset (traverse (handleAdd tree p (Some nm))) = add_mset (p @ '' / '' @ nm) (mset (traverse tree))"
    by simp
next
  assume a: "newName \<noteq> []" "newName \<noteq> oldName" "p \<in> set (traverse tree)"
    "handleRename tree p oldName (Some newName) = Inr tree'"
  then obtain found where r: "findAndRename newName p tree = Inr (found, tree')"
    by (auto simp add: handleRename_def split: sum.splits)
  from findAndRename_shape [OF r] a(3)
  show "renamedPath p newName \<in> set (traverse tree')" and "length (traverse tree') = length (traverse tree)"
    by simp_all
  from findAndRename_shape [OF r] a(3) have "found" by simp
  with r show "(newName, renamedPath p newName) \<in> set (labels tree')" by (rule findAndRename_label)
  assume "renamedPath p newName \<notin> set (p # subtreePaths tree p)"
  with r a(3) show "Suc (count_list (traverse tree) (renamedPath p newName))
               \<le> count_list (traverse tree') (renamedPath p newName)"
    by (rule findAndRename_count)
next
  assume a: "newName \<noteq> []" "newName \<noteq> oldName" "p \<in> set (traverse tree)"
    and pl: "plainText p" "CHR ''$'' \<notin> set (renamedPath p newName)"
    and out: "renamedPath p newName \<notin> set (p # subtreePaths tree p)"
  from findAndRename_returns [OF pl] obtain found t' where r: "findAndRename newName p tree = Inr (found, t')"
    by blast
  from findAndRename_shape [OF r] a(3) have "found" by simp
  with r have l: "(newName, renamedPath p newName) \<in> set (labels t')" by (rule findAndRename_label)
  from r a(3) out have c: "Suc (count_list (traverse tree) (renamedPath p newName))
               \<le> count_list (traverse t') (renamedPath p newName)"
    by (rule findAndRename_count)
  have "handleRename tree p oldName (Some newName) = Inr t'"
    using r a(1,2) by (simp add: handleRename_def)
  with l c show "\<exists>t'. handleRename tree p oldName (Some newName) = Inr t'
           \<and> (newName, renamedPath p newName) \<in> set (labels t')
           \<and> Suc (count_list (traverse tree) (renamedPath p newName))
                 \<le> count_list (traverse t') (renamedPath p newName)"
    by blast
qed

text \<open>
  The same at a concrete tree, with a collision: next to the root nodes A and B, a
  second B is added and A is renamed to B; the renamed tree holds the path B twice.
\<close>

theorem add_and_rename_without_duplicate_check_witness:
  "''B'' \<noteq> [] \<and> ''A'' \<noteq> [] \<and> ''B'' \<noteq> ''A''
   \<and> ''A'' \<in> set (traverse [StorageNode ''A'' ''A'' [], StorageNode ''B'' ''B'' []])
   \<and> plainText ''A'' \<and> CHR ''$'' \<notin> set (renamedPath ''A'' ''B'')
   \<and> renamedPath ''A'' ''B'' \<notin> set (''A'' # subtreePaths [StorageNode ''A'' ''A'' [], StorageNode ''B'' ''B'' []] ''A'')
   \<and> handleRename [StorageNode ''A'' ''A'' [], StorageNode ''B'' ''B'' []] ''A'' ''A'' (Some ''B'')
       = Inr [StorageNode ''B'' ''B'' [], StorageNode ''B'' ''B'' []]
   \<and> mset (traverse (handleAdd [StorageNode ''A'' ''A'' [], StorageNode ''B'' ''B'' []] ''A'' (Some ''B'')))
       = add_mset (''A'' @ '' / '' @ ''B'') (mset (traverse [StorageNode ''A'' ''A'' [], StorageNode ''B'' ''B'' []]))
   \<and> handleAdd [StorageNode ''A'' ''A'' [], StorageNode ''B'' ''B'' []] [] (Some ''B'')
       = [StorageNode ''A'' ''A'' [], StorageNode ''B'' ''B'' []] @ [StorageNode ''B'' ''B'' []]
   \<and> renamedPath ''A'' ''B'' \<in> set (traverse [StorageNode ''B'' ''B'' [], StorageNode ''B'' ''B'' []])
   \<and> length (traverse [StorageNode ''B'' ''B'' [], StorageNode ''B'' ''B'' []])
       = length (traverse [StorageNode ''A'' ''A'' [], StorageNode ''B'' ''B'' []])
   \<and> (''B'', renamedPath ''A'' ''B'') \<in> set (labels [StorageNode ''B'' ''B'' [], StorageNode ''B'' ''B'' []])
   \<and> Suc (count_list (traverse [StorageNode ''A'' ''A'' [], StorageNode ''B'' ''B'' []]) (renamedPath ''A'' ''B''))
       \<le> count_list (traverse [StorageNode ''B'' ''B'' [], StorageNode ''B'' ''B'' []]) (renamedPath ''A'' ''B'')
   \<and> (\<exists>t'. handleRename [StorageNode ''A'' ''A'' [], StorageNode ''B'' ''B'' []] ''A'' ''A'' (Some ''B'') = Inr t'
         \<and> (''B'', renamedPath ''A'' ''B'') \<in> set (labels t')
         \<and> Suc (count_list (traverse [StorageNode ''A'' ''A'' [], StorageNode ''B'' ''B'' []]) (renamedPath ''A'' ''B''))
               \<le> count_list (traverse t') (renamedPath ''A'' ''B''))
   \<and> count_list (traverse [StorageNode ''A'' ''A'' [], StorageNode ''B'' ''B'' []]) ''B'' = 1
   \<and> count_list (traverse [StorageNode ''B'' ''B'' [], StorageNode ''B'' ''B'' []]) ''B'' = 2"
proof -
  let ?t = "[StorageNode ''A'' ''A'' [], StorageNode ''B'' ''B'' []]"
  let ?t' = "[StorageNode ''B'' ''B'' [], StorageNode ''B'' ''B'' []]"
  have h1: "''B'' \<noteq> []" and h2: "''A'' \<noteq> []" and h3: "''B'' \<noteq> ''A''" by simp_all
  have h4: "''A'' \<in> set (traverse ?t)" by simp
  have h5: "handleRename ?t ''A'' ''A'' (Some ''B'') = Inr ?t'" by code_simp
  have h6: "plainText ''A''" by code_simp
  have h7: "CHR ''$'' \<notin> set (renamedPath ''A'' ''B'')" by code_simp
  have h8: "renamedPath ''A'' ''B'' \<notin> set (''A'' # subtreePaths ?t ''A'')" by code_simp
  have c1: "count_list (traverse ?t) ''B'' = 1" and c2: "count_list (traverse ?t') ''B'' = 2" by simp_all
  note inst = add_and_rename_without_duplicate_check [of ?t "''A''" "''B''" "''A''" "''B''" ?t']
  from inst h1 h2 have add1: "mset (traverse (handleAdd ?t ''A'' (Some ''B'')))
       = add_mset (''A'' @ '' / '' @ ''B'') (mset (traverse ?t))"
    using h4 by blast
  from inst h1 have add2: "handleAdd ?t [] (Some ''B'') = ?t @ [StorageNode ''B'' ''B'' []]" by blast
  from inst h1 h3 h4 h5 have r1: "renamedPath ''A'' ''B'' \<in> set (traverse ?t')"
    and r2: "length (traverse ?t') = length (traverse ?t)"
    and r3: "(''B'', renamedPath ''A'' ''B'') \<in> set (labels ?t')"
    by blast+
  from inst h1 h3 h4 h5 h8 have r4: "Suc (count_list (traverse ?t) (renamedPath ''A'' ''B''))
       \<le> count_list (traverse ?t') (renamedPath ''A'' ''B'')"
    by blast
  from inst h1 h3 h4 h6 h7 h8 have r5: "\<exists>t'. handleRename ?t ''A'' ''A'' (Some ''B'') = Inr t'
         \<and> (''B'', renamedPath ''A'' ''B'') \<in> set (labels t')
         \<and> Suc (count_list (traverse ?t) (renamedPath ''A'' ''B'')) \<le> count_list (traverse t') (renamedPath ''A'' ''B'')"
    by blast
  from h1 h2 h3 h4 h6 h7 h8 h5 add1 add2 r1 r2 r3 r4 r5 c1 c2 show ?thesis by (intro conjI)
qed

text \<open>
  C2 as stated fails: adding A at the root of a tree that has the root node A returns a
  tree with two nodes of path A, not the prior tree; renaming A to B next to an existing
  B returns a tree with two nodes of path B.
\<close>

theorem duplicate_path_accepted_counterexample:
  "handleAdd [StorageNode ''A'' ''A'' []] [] (Some ''A'') = [StorageNode ''A'' ''A'' [], StorageNode ''A'' ''A'' []]
   \<and> handleAdd [StorageNode ''A'' ''A'' []] [] (Some ''A'') \<noteq> [StorageNode ''A'' ''A'' []]
   \<and> handleRename [StorageNode ''A'' ''A'' [], StorageNode ''B'' ''B'' []] ''A'' ''A'' (Some ''B'')
       = Inr [StorageNode ''B'' ''B'' [], StorageNode ''B'' ''B'' []]
   \<and> handleRename [StorageNode ''A'' ''A'' [], StorageNode ''B'' ''B'' []] ''A'' ''A'' (Some ''B'')
       \<noteq> Inr [StorageNode ''A'' ''A'' [], StorageNode ''B'' ''B'' []]"
  by code_simp

text \<open>
  C5. Scenario C holds on the code: renaming \<^verbatim>\<open>Shelf1 / BoxA\<close> to BoxB rewrites the child to
  \<^verbatim>\<open>Shelf1 / BoxB / Bin1\<close> and leaves \<^verbatim>\<open>Shelf1 / BoxA2\<close>. The prefix is not replaced
  literally, though: the old path is read as a regular expression. Renaming the node
  \<^verbatim>\<open>Regal (Keller)\<close> to \<^verbatim>\<open>Regal 2\<close> leaves its child at \<^verbatim>\<open>Regal (Keller) / Box\<close>, since the
  parentheses form a group and the pattern matches no path with a parenthesis in it.
\<close>

theorem rename_prefix_read_as_pattern:
  "handleRename scenarioTree ''Shelf1 / BoxA'' ''BoxA'' (Some ''BoxB'')
     = Inr [StorageNode ''Shelf1'' ''Shelf1''
              [StorageNode ''BoxB'' ''Shelf1 / BoxB'' [StorageNode ''Bin1'' ''Shelf1 / BoxB / Bin1'' []],
               StorageNode ''BoxA2'' ''Shelf1 / BoxA2'' []]]
   \<and> handleRename [StorageNode ''Regal (Keller)'' ''Regal (Keller)'' [StorageNode ''Box'' ''Regal (Keller) / Box'' []]]
        ''Regal (Keller)'' ''Regal (Keller)'' (Some ''Regal 2'')
     = Inr [StorageNode ''Regal 2'' ''Regal 2'' [StorageNode ''Box'' ''Regal (Keller) / Box'' []]]"
  by code_simp

text \<open>
  C6, as the code has it. In a tree with pairwise distinct paths, committing the removal
  of \<open>p\<close> stores the tree without the nodes of path \<open>p\<close> and everything below them, the
  paths of the stored tree split into the remaining and the removed ones, and an item's
  location is cleared exactly when it equals one of the removed paths; every other item
  is kept as it is.
\<close>

theorem remove_clears_items_at_removed_paths:
  assumes "distinct (traverse tree)"
  shows "handleSaveStorageTree tree items (handleDelete tree p True)
           = (map (clearLocation (removedPaths tree p)) items, findAndDelete tree p)
     \<and> mset (traverse tree) = mset (traverse (findAndDelete tree p)) + mset (removedPaths tree p)
     \<and> p \<notin> set (traverse (findAndDelete tree p))"
proof -
  have "set (traverse tree) - set (traverse (findAndDelete tree p)) = set (removedPaths tree p)"
    using assms by (rule findAndDelete_paths)
  then have "handleSaveStorageTree tree items (findAndDelete tree p)
           = (map (clearLocation (removedPaths tree p)) items, findAndDelete tree p)"
    by (rule handleSaveStorageTree_eq)
  then show ?thesis
    by (simp add: handleDelete_def findAndDelete_absent findAndDelete_mset [symmetric])
qed

text \<open>
  Scenario D: removing \<^verbatim>\<open>Shelf1 / BoxA\<close> removes exactly that path and
  \<^verbatim>\<open>Shelf1 / BoxA / Bin1\<close>, and the items stored at these two lose their location.
\<close>

theorem remove_clears_items_at_removed_paths_witness:
  "distinct (traverse scenarioTree)
   \<and> removedPaths scenarioTree ''Shelf1 / BoxA'' = [''Shelf1 / BoxA'', ''Shelf1 / BoxA / Bin1'']
   \<and> traverse (findAndDelete scenarioTree ''Shelf1 / BoxA'') = [''Shelf1'', ''Shelf1 / BoxA2'']
   \<and> map locationPath (fst (handleSaveStorageTree scenarioTree
         [storedAt ''Shelf1 / BoxA'', storedAt ''Shelf1 / BoxA / Bin1'', storedAt ''Shelf1 / BoxA2'', storedAt ''Shelf1'']
         (handleDelete scenarioTree ''Shelf1 / BoxA'' True)))
       = [Some [], Some [], Some ''Shelf1 / BoxA2'', Some ''Shelf1'']"
proof -
  let ?fs = "[storedAt ''Shelf1 / BoxA'', storedAt ''Shelf1 / BoxA / Bin1'', storedAt ''Shelf1 / BoxA2'', storedAt ''Shelf1'']"
  have d: "distinct (traverse scenarioTree)" by code_simp
  have r: "removedPaths scenarioTree ''Shelf1 / BoxA'' = [''Shelf1 / BoxA'', ''Shelf1 / BoxA / Bin1'']" by code_simp
  have t: "traverse (findAndDelete scenarioTree ''Shelf1 / BoxA'') = [''Shelf1'', ''Shelf1 / BoxA2'']" by code_simp
  have e: "map locationPath (map (clearLocation (removedPaths scenarioTree ''Shelf1 / BoxA'')) ?fs)
             = [Some [], Some [], Some ''Shelf1 / BoxA2'', Some ''Shelf1'']" by code_simp
  from remove_clears_items_at_removed_paths [OF d, where items = ?fs and p = "''Shelf1 / BoxA''"]
  have "fst (handleSaveStorageTree scenarioTree ?fs (handleDelete scenarioTree ''Shelf1 / BoxA'' True))
          = map (clearLocation (removedPaths scenarioTree ''Shelf1 / BoxA'')) ?fs"
    by simp
  with d r t e show ?thesis by simp
qed

text \<open>
  C6 as stated fails: after the removal of \<^verbatim>\<open>Shelf1 / BoxA\<close> is committed, an item at
  \<^verbatim>\<open>Shelf1 / BoxA / Bin9\<close>, a location below the removed node that is no node of the tree,
  keeps its location although it starts with a removed path; so does the item at the
  sibling \<^verbatim>\<open>Shelf1 / BoxA2\<close>, whose path starts with the same characters.
\<close>

theorem remove_keeps_item_below_removed_path_counterexample:
  "prefix ''Shelf1 / BoxA'' ''Shelf1 / BoxA / Bin9'' \<and> prefix ''Shelf1 / BoxA'' ''Shelf1 / BoxA2''
   \<and> ''Shelf1 / BoxA'' \<in> set (removedPaths scenarioTree ''Shelf1 / BoxA'')
   \<and> map locationPath (fst (handleSaveStorageTree scenarioTree
         [storedAt ''Shelf1 / BoxA / Bin9'', storedAt ''Shelf1 / BoxA2'']
         (handleDelete scenarioTree ''Shelf1 / BoxA'' True)))
       = [Some ''Shelf1 / BoxA / Bin9'', Some ''Shelf1 / BoxA2'']"
  by code_simp




section \<open>Properties of the migration\<close>

lemma idBranchOf_never_backfill:
  "idBranchOf (dataVersionOf d) (case idCounters d of None \<Rightarrow> emptyCounters | Some c \<Rightarrow> c) fs \<noteq> BackfillCounters"
  by (auto simp add: idBranchOf_def dataVersionOf_def countKeys_def emptyCounters_def split: option.splits if_splits)

lemma migrateLegacyFilament_complete: "complete (migrateLegacyFilament env f)"
  by (simp add: migrateLegacyFilament_def complete_def Let_def split: option.splits)

lemma needsLegacyMigration_iff: "needsLegacyMigration fs \<longleftrightarrow> \<not> list_all complete fs"
  by (induction fs) (auto simp add: needsLegacyMigration_def complete_def)

lemma legacy_stage_complete:
  "list_all complete (if needsLegacyMigration fs then map (migrateLegacyFilament env) fs else fs)"
  by (simp add: needsLegacyMigration_iff list_all_iff migrateLegacyFilament_complete)

lemma insertBy_set: "set (insertBy cmp x xs) = insert x (set xs)"
  by (induction xs) auto

lemma sortBy_set: "set (sortBy cmp xs) = set xs"
  by (induction xs) (simp_all add: insertBy_set)

lemma sortBy_complete: "list_all complete fs \<Longrightarrow> list_all complete (sortBy cmp fs)"
  by (simp add: list_all_iff sortBy_set)

lemma regenerateIds_complete:
  "list_all complete fs \<Longrightarrow> list_all complete (fst (regenerateIds c fs))"
  by (induction fs arbitrary: c) (simp_all add: case_prod_beta complete_def)

lemma migratePrinters_idem:
  assumes "\<forall>i. randomUUID env i \<noteq> []"
  shows "migratePrinters env' j (migratePrinters env i ps) = migratePrinters env i ps"
proof (induction ps arbitrary: i j)
  case Nil
  show ?case by simp
next
  case (Cons p ps)
  have "orDefault (id_p p) (randomUUID env i) \<noteq> []"
    using assms by (cases "id_p p") auto
  then have "orDefault (Some (orDefault (id_p p) (randomUUID env i))) (randomUUID env' j)
               = orDefault (id_p p) (randomUUID env i)"
    by simp
  with Cons.IH show ?case by simp
qed

lemma migrateData_result:
  "\<exists>fs c. migrateData env d =
      Inr \<lparr>filaments = Some fs,
           storageTree = Some (case storageTree d of None \<Rightarrow> [] | Some t \<Rightarrow> t),
           idCounters = Some (c\<lparr>version := Some 3\<rparr>),
           printers = Some (migratePrinters env 0 (case printers d of None \<Rightarrow> [] | Some ps \<Rightarrow> ps))\<rparr>
    \<and> list_all complete fs"
proof -
  let ?raw = "case filaments d of None \<Rightarrow> [] | Some fs \<Rightarrow> fs"
  let ?c0 = "case idCounters d of None \<Rightarrow> emptyCounters | Some c \<Rightarrow> c"
  let ?legacy = "if needsLegacyMigration ?raw then map (migrateLegacyFilament env) ?raw else ?raw"
  have lc: "list_all complete ?legacy" by (rule legacy_stage_complete)
  consider (regen) "idBranchOf (dataVersionOf d) ?c0 ?legacy = RegenerateIds"
    | (keep) "idBranchOf (dataVersionOf d) ?c0 ?legacy = KeepCounters"
    using idBranchOf_never_backfill [of d ?legacy] by (cases "idBranchOf (dataVersionOf d) ?c0 ?legacy") auto
  then show ?thesis
  proof cases
    case regen
    let ?r = "regenerateIds freshCounters (sortBy (compareFilaments env) ?legacy)"
    have "list_all complete (fst ?r)"
      using lc by (intro regenerateIds_complete sortBy_complete)
    moreover have "migrateData env d =
      Inr \<lparr>filaments = Some (fst ?r),
           storageTree = Some (case storageTree d of None \<Rightarrow> [] | Some t \<Rightarrow> t),
           idCounters = Some ((snd ?r)\<lparr>version := Some 3\<rparr>),
           printers = Some (migratePrinters env 0 (case printers d of None \<Rightarrow> [] | Some ps \<Rightarrow> ps))\<rparr>"
      using regen by (simp add: migrateData_def Let_def case_prod_beta)
    ultimately show ?thesis by blast
  next
    case keep
    have "migrateData env d =
      Inr \<lparr>filaments = Some ?legacy,
           storageTree = Some (case storageTree d of None \<Rightarrow> [] | Some t \<Rightarrow> t),
           idCounters = Some (?c0\<lparr>version := Some 3\<rparr>),
           printers = Some (migratePrinters env 0 (case printers d of None \<Rightarrow> [] | Some ps \<Rightarrow> ps))\<rparr>"
      using keep by (simp add: migrateData_def Let_def)
    with lc show ?thesis by blast
  qed
qed

lemma migrateData_canonical:
  assumes "\<forall>i. randomUUID env i \<noteq> []" and "list_all complete fs"
  shows "migrateData env' \<lparr>filaments = Some fs, storageTree = Some t,
                            idCounters = Some (c\<lparr>version := Some 3\<rparr>),
                            printers = Some (migratePrinters env 0 ps)\<rparr>
         = Inr \<lparr>filaments = Some fs, storageTree = Some t,
                idCounters = Some (c\<lparr>version := Some 3\<rparr>),
                printers = Some (migratePrinters env 0 ps)\<rparr>"
proof -
  have n: "\<not> needsLegacyMigration fs" using assms(2) by (simp add: needsLegacyMigration_iff)
  have b: "idBranchOf 3 (c\<lparr>version := Some 3\<rparr>) fs = KeepCounters"
    by (simp add: idBranchOf_def countKeys_def)
  show ?thesis
    by (simp add: migrateData_def Let_def dataVersionOf_def n b migratePrinters_idem [OF assms(1)])
qed

text \<open>
  C4. Migration is idempotent: for every document, \<^verbatim>\<open>migrateData\<close> returns a document,
  and migrating that document again, in any environment, returns the same document.
  The only assumption is that \<^verbatim>\<open>crypto.randomUUID()\<close> never returns the empty string.
\<close>

theorem migrate_idempotent:
  assumes "\<forall>i. randomUUID env i \<noteq> []"
  shows "\<exists>b. migrateData env d = Inr b \<and> migrateData env' b = Inr b"
proof -
  from migrateData_result [of env d] obtain fs c where
    r: "migrateData env d =
      Inr \<lparr>filaments = Some fs,
           storageTree = Some (case storageTree d of None \<Rightarrow> [] | Some t \<Rightarrow> t),
           idCounters = Some (c\<lparr>version := Some 3\<rparr>),
           printers = Some (migratePrinters env 0 (case printers d of None \<Rightarrow> [] | Some ps \<Rightarrow> ps))\<rparr>"
    and lc: "list_all complete fs"
    by blast
  from migrateData_canonical [OF assms lc] r show ?thesis by simp
qed

text \<open>
  The same on a version-1 document with legacy fields: it is migrated to one item with
  the id PETG-0001-001 and the location \<^verbatim>\<open>Regal 1 / Fach A\<close>, and the second migration
  changes nothing.
\<close>

theorem migrate_idempotent_witness:
  "randomUUID exampleEnv 0 \<noteq> []
   \<and> resultIds (migrateData exampleEnv legacyData) = [Some ''PETG-0001-001'']
   \<and> (\<exists>b. migrateData exampleEnv legacyData = Inr b \<and> migrateData exampleEnv b = Inr b
          \<and> map locationPath (case filaments b of None \<Rightarrow> [] | Some fs \<Rightarrow> fs) = [Some ''Regal 1 / Fach A''])"
proof -
  have u: "\<forall>i. randomUUID exampleEnv i \<noteq> []" by (simp add: exampleEnv_def)
  have i: "resultIds (migrateData exampleEnv legacyData) = [Some ''PETG-0001-001'']" by code_simp
  have l: "(case migrateData exampleEnv legacyData of
              Inl e \<Rightarrow> []
            | Inr b \<Rightarrow> map locationPath (case filaments b of None \<Rightarrow> [] | Some fs \<Rightarrow> fs))
           = [Some ''Regal 1 / Fach A'']" by code_simp
  from migrate_idempotent [OF u, of legacyData exampleEnv]
  obtain b where b: "migrateData exampleEnv legacyData = Inr b" "migrateData exampleEnv b = Inr b"
    by blast
  from l b(1) have p: "map locationPath (case filaments b of None \<Rightarrow> [] | Some fs \<Rightarrow> fs) = [Some ''Regal 1 / Fach A'']"
    by simp
  from u have "randomUUID exampleEnv 0 \<noteq> []" by (rule spec)
  moreover from b p have "\<exists>b. migrateData exampleEnv legacyData = Inr b \<and> migrateData exampleEnv b = Inr b
          \<and> map locationPath (case filaments b of None \<Rightarrow> [] | Some fs \<Rightarrow> fs) = [Some ''Regal 1 / Fach A'']"
    by (intro exI [of _ b] conjI)
  ultimately show ?thesis using i by (intro conjI)
qed

text \<open>
  C1. The counter backfill is never reached: a document without counters has no version,
  so \<^verbatim>\<open>dataVersion\<close> is 1 and the id migration runs instead. For scenario E, with the
  counters missing or \<^verbatim>\<open>{}\<close>, the items are sorted and get new ids, ABS-0001-001 and
  PLA-0001-002 in place of PLA-0003-002, and the counters hold the
  next spool number 2 for PLA and for ABS and the next colour number 3. The backfill
  itself, run on the same items, gives what the scenario states: 4 for PLA, 2 for ABS
  and the next colour number 3.
\<close>

theorem backfill_unreachable_ids_regenerated:
  "(\<forall>d :: unit appData. \<forall>fs.
       idBranchOf (dataVersionOf d) (case idCounters d of None \<Rightarrow> emptyCounters | Some c \<Rightarrow> c) fs \<noteq> BackfillCounters)
   \<and> resultIds (migrateData exampleEnv scenarioE) = [Some ''ABS-0001-001'', Some ''PLA-0001-002'']
   \<and> resultIds (migrateData exampleEnv (scenarioE\<lparr>idCounters := Some emptyCounters\<rparr>))
       = [Some ''ABS-0001-001'', Some ''PLA-0001-002'']
   \<and> spoolCounter (resultCounters (migrateData exampleEnv scenarioE)) ''PLA'' = 2
   \<and> spoolCounter (resultCounters (migrateData exampleEnv scenarioE)) ''ABS'' = 2
   \<and> nextColorNum (resultCounters (migrateData exampleEnv scenarioE)) = Some (Num 3)
   \<and> (case backfillCounters freshCounters (case filaments scenarioE of None \<Rightarrow> [] | Some fs \<Rightarrow> fs) of
         Inl e \<Rightarrow> False
       | Inr c \<Rightarrow> spoolCounter c ''PLA'' = 4 \<and> spoolCounter c ''ABS'' = 2 \<and> nextColorNum c = Some (Num 3))"
proof (intro conjI allI)
  fix d :: "unit appData" and fs
  show "idBranchOf (dataVersionOf d) (case idCounters d of None \<Rightarrow> emptyCounters | Some c \<Rightarrow> c) fs \<noteq> BackfillCounters"
    by (rule idBranchOf_never_backfill)
next
  show "resultIds (migrateData exampleEnv scenarioE) = [Some ''ABS-0001-001'', Some ''PLA-0001-002'']"
    by code_simp
  show "resultIds (migrateData exampleEnv (scenarioE\<lparr>idCounters := Some emptyCounters\<rparr>))
       = [Some ''ABS-0001-001'', Some ''PLA-0001-002'']"
    by code_simp
  show "spoolCounter (resultCounters (migrateData exampleEnv scenarioE)) ''PLA'' = 2" by code_simp
  show "spoolCounter (resultCounters (migrateData exampleEnv scenarioE)) ''ABS'' = 2" by code_simp
  show "nextColorNum (resultCounters (migrateData exampleEnv scenarioE)) = Some (Num 3)" by code_simp
  show "case backfillCounters freshCounters (case filaments scenarioE of None \<Rightarrow> [] | Some fs \<Rightarrow> fs) of
         Inl e \<Rightarrow> False
       | Inr c \<Rightarrow> spoolCounter c ''PLA'' = 4 \<and> spoolCounter c ''ABS'' = 2 \<and> nextColorNum c = Some (Num 3)"
    by code_simp
qed

section \<open>The allocator writes to its copy only\<close>

lemma cloneEntries_frame:
  "cloneEntries h es = Some (es', h') \<Longrightarrow>
     take (length h) h' = h \<and> length h \<le> length h' \<and> list_all (\<lambda>e. length h \<le> snd e) es'"
proof (induction es arbitrary: h es' h')
  case Nil
  then show ?case by simp
next
  case (Cons e es)
  obtain k a where e: "e = (k, a)" by (cases e)
  from Cons.prems e obtain n es1 where
    c: "lookupCell h a = Some (TypeCounterObj n)"
    and r: "cloneEntries (h @ [TypeCounterObj (jsonNum n)]) es = Some (es1, h')"
    and es': "es' = (k, length h) # es1"
    by (auto split: option.splits cell.splits)
  from Cons.IH [OF r] have
    t: "take (Suc (length h)) h' = h @ [TypeCounterObj (jsonNum n)]"
    and l: "Suc (length h) \<le> length h'"
    and a: "list_all (\<lambda>e. Suc (length h) \<le> snd e) es1"
    by simp_all
  have "take (length h) h' = take (length h) (take (Suc (length h)) h')" by (simp add: min_def)
  also have "\<dots> = h" by (simp only: t) simp
  finally have "take (length h) h' = h" .
  moreover have "list_all (\<lambda>e. length h \<le> snd e) es1"
    using a by (auto simp add: list_all_iff)
  ultimately show ?case using l es' by simp
qed

lemma lookupCell_append_new: "lookupCell (h @ [c]) (length h) = Some c"
  by (simp add: lookupCell_def)

lemma jsonCopyH_frame:
  assumes "jsonCopyH h r = Some (cc, h1)"
  shows "take (length h) h1 = h \<and> own (length h) h1 cc \<and> cc < length h1"
proof -
  from assms obtain cm nc tc v cm' ha tc' hb where
    cell: "lookupCell h r = Some (CountersObj cm nc tc v)"
    and ccm: "cloneColorMap h cm = Some (cm', ha)"
    and ctc: "cloneTypeCounters ha tc = Some (tc', hb)"
    and cc: "cc = length hb"
    and h1: "h1 = hb @ [CountersObj cm' (map_option jsonNum nc) tc' v]"
    by (auto simp add: jsonCopyH_def split: option.splits cell.splits)
  from ccm have a: "take (length h) ha = h \<and> length h \<le> length ha \<and> (case cm' of None \<Rightarrow> True | Some m \<Rightarrow> length h \<le> m)"
    by (auto simp add: cloneColorMap_def split: option.splits cell.splits)
  from ctc have b: "take (length ha) hb = ha \<and> length ha \<le> length hb
      \<and> (case tc' of None \<Rightarrow> True
          | Some t \<Rightarrow> length ha \<le> t \<and> t < length hb \<and>
              (case lookupCell hb t of Some (TypeCountersObj es) \<Rightarrow> list_all (\<lambda>e. length ha \<le> snd e) es | _ \<Rightarrow> True))"
  proof (cases tc)
    case None
    with ctc show ?thesis by (simp add: cloneTypeCounters_def)
  next
    case (Some t0)
    with ctc obtain es es' h' where
      "cloneEntries ha es = Some (es', h')" and tc': "tc' = Some (length h')" and hb: "hb = h' @ [TypeCountersObj es']"
      by (auto simp add: cloneTypeCounters_def split: option.splits cell.splits)
    from cloneEntries_frame [OF this(1)] tc' hb show ?thesis
      by (simp add: lookupCell_append_new)
  qed
  have "take (length h) hb = take (length h) (take (length ha) hb)"
    using a by (simp add: min_def)
  also have "\<dots> = h" using a b by simp
  finally have t: "take (length h) hb = h" .
  have len: "length h \<le> length hb" using a b by simp
  have "take (length h) h1 = h" using t len h1 by simp
  moreover have "cc < length h1" using cc h1 by simp
  moreover have "own (length h) h1 cc"
  proof -
    have l: "lookupCell h1 cc = Some (CountersObj cm' (map_option jsonNum nc) tc' v)"
      using cc h1 by (simp add: lookupCell_append_new)
    have inner: "lookupCell h1 t = lookupCell hb t" if "t < length hb" for t
      using that h1 by (simp add: lookupCell_def nth_append)
    show ?thesis
      unfolding own_def l using a b len cc
      by (auto simp add: inner list_all_iff split: option.splits cell.splits)
  qed
  ultimately show ?thesis by blast
qed

lemma ensureColorMap_frame:
  assumes "own n h cc" and "n \<le> length h" and "ensureColorMap h cc = Some h'"
  shows "own n h' cc \<and> take n h' = take n h \<and> n \<le> length h'"
proof -
  from assms(1) have ncc: "n \<le> cc" by (simp add: own_def)
  from assms(3) obtain cm nc tc v where l: "lookupCell h cc = Some (CountersObj cm nc tc v)"
    by (auto simp add: ensureColorMap_def split: option.splits cell.splits)
  then have cc: "cc < length h" by (auto simp add: lookupCell_def split: if_splits)
  show ?thesis
  proof (cases cm)
    case (Some m)
    with assms l show ?thesis by (simp add: ensureColorMap_def)
  next
    case None
    with assms(3) l have h': "h' = (h @ [ColorMapObj []])[cc := CountersObj (Some (length h)) (Some (Num 1)) tc v]"
      by (simp add: ensureColorMap_def)
    have fr: "take n h' = take n h" using ncc assms(2) h' by simp
    have l': "lookupCell h' cc = Some (CountersObj (Some (length h)) (Some (Num 1)) tc v)"
      using cc h' by (simp add: lookupCell_def)
    have other: "lookupCell h' t = lookupCell h t" if "t < length h" "t \<noteq> cc" for t
      using that h' by (simp add: lookupCell_def nth_append)
    have "own n h' cc"
    proof (cases tc)
      case None
      then show ?thesis unfolding own_def l' using ncc assms(2) by simp
    next
      case (Some t)
      show ?thesis
      proof (cases "t < length h \<and> t \<noteq> cc")
        case True
        then have "lookupCell h' t = lookupCell h t" using other by simp
        with assms(1) l Some show ?thesis unfolding own_def l' using ncc assms(2) by simp
      next
        case False
        then have "lookupCell h' t = None \<or> lookupCell h' t = Some (ColorMapObj []) \<or>
                   (\<exists>a b c d. lookupCell h' t = Some (CountersObj a b c d))"
          using h' cc by (auto simp add: lookupCell_def nth_append nth_list_update)
        with assms(1) l Some show ?thesis unfolding own_def l' using ncc assms(2) by auto
      qed
    qed
    with fr h' assms(2) show ?thesis by simp
  qed
qed

lemma ensureTypeCounters_frame:
  assumes "own n h cc" and "n \<le> length h" and "ensureTypeCounters h cc = Some h'"
  shows "own n h' cc \<and> take n h' = take n h \<and> n \<le> length h'"
proof -
  from assms(1) have ncc: "n \<le> cc" by (simp add: own_def)
  from assms(3) obtain cm nc tc v where l: "lookupCell h cc = Some (CountersObj cm nc tc v)"
    by (auto simp add: ensureTypeCounters_def split: option.splits cell.splits)
  then have cc: "cc < length h" by (auto simp add: lookupCell_def split: if_splits)
  show ?thesis
  proof (cases tc)
    case (Some t)
    with assms l show ?thesis by (simp add: ensureTypeCounters_def)
  next
    case None
    with assms(3) l have h': "h' = (h @ [TypeCountersObj []])[cc := CountersObj cm nc (Some (length h)) v]"
      by (simp add: ensureTypeCounters_def)
    have fr: "take n h' = take n h" using ncc assms(2) h' by simp
    have l': "lookupCell h' cc = Some (CountersObj cm nc (Some (length h)) v)"
      using cc h' by (simp add: lookupCell_def)
    have new: "lookupCell h' (length h) = Some (TypeCountersObj [])"
      using cc h' by (simp add: lookupCell_def)
    have "own n h' cc"
      using assms(1) l assms(2) by (auto simp add: own_def l' new split: option.splits)
    with fr h' assms(2) show ?thesis by simp
  qed
qed

lemma ensureTypeEntry_frame:
  assumes "own n h cc" and "n \<le> length h" and "ensureTypeEntry type h cc = Some h'"
  shows "own n h' cc \<and> take n h' = take n h \<and> n \<le> length h'"
proof -
  from assms(3) obtain cm nc t v es where l: "lookupCell h cc = Some (CountersObj cm nc (Some t) v)"
    and lt: "lookupCell h t = Some (TypeCountersObj es)"
    by (auto simp add: ensureTypeEntry_def split: option.splits cell.splits)
  from l lt have cc: "cc < length h" and t: "t < length h" and ne: "t \<noteq> cc"
    by (auto simp add: lookupCell_def split: if_splits)
  from assms(1) l lt have nt: "n \<le> t" and ents: "list_all (\<lambda>e. n \<le> snd e) es"
    by (simp_all add: own_def)
  show ?thesis
  proof (cases "map_of es type")
    case (Some a)
    with assms l lt show ?thesis by (simp add: ensureTypeEntry_def)
  next
    case None
    with assms(3) l lt have h': "h' = (h @ [TypeCounterObj (Num 1)])[t := TypeCountersObj (es @ [(type, length h)])]"
      by (simp add: ensureTypeEntry_def)
    have fr: "take n h' = take n h" using nt assms(2) h' by simp
    have l': "lookupCell h' cc = Some (CountersObj cm nc (Some t) v)"
      using cc ne l h' by (simp add: lookupCell_def nth_append split: if_splits)
    have lt': "lookupCell h' t = Some (TypeCountersObj (es @ [(type, length h)]))"
      using t h' by (simp add: lookupCell_def)
    have "own n h' cc"
      using assms(1) l ents assms(2) by (auto simp add: own_def l' lt' split: option.splits)
    with fr h' assms(2) show ?thesis by simp
  qed
qed

lemma assignColorCode_frame:
  assumes "own n h cc" and "n \<le> length h" and "assignColorCode mfgColor h cc = Some h'"
  shows "own n h' cc \<and> take n h' = take n h \<and> n \<le> length h'"
proof -
  from assms(1) have ncc: "n \<le> cc" by (simp add: own_def)
  from assms(3) obtain m nc tc v kvs where l: "lookupCell h cc = Some (CountersObj (Some m) nc tc v)"
    and lm: "lookupCell h m = Some (ColorMapObj kvs)"
    by (auto simp add: assignColorCode_def split: option.splits cell.splits)
  from l lm have cc: "cc < length h" and m: "m < length h" and ne: "m \<noteq> cc"
    by (auto simp add: lookupCell_def split: if_splits)
  from assms(1) l have nm: "n \<le> m" by (simp add: own_def)
  show ?thesis
  proof (cases "\<exists>ch code. map_of kvs mfgColor = Some (ch # code)")
    case True
    with assms l lm show ?thesis by (auto simp add: assignColorCode_def)
  next
    case False
    then have "h' = h[cc := CountersObj (Some m) (Some (increment (toNumber nc))) tc v,
                      m := ColorMapObj (setKey mfgColor (padStart 3 (CHR ''0'') (numToString (toNumber nc))) kvs)]"
      using assms(3) l lm by (auto simp add: assignColorCode_def split: option.splits list.splits)
    then obtain c1 c2 where h': "h' = h[cc := CountersObj (Some m) c1 tc v, m := ColorMapObj c2]" by blast
    have fr: "take n h' = take n h" using ncc nm h' by simp
    have l': "lookupCell h' cc = Some (CountersObj (Some m) c1 tc v)"
      using cc ne h' by (simp add: lookupCell_def)
    have lt': "lookupCell h' t = (if t = m then Some (ColorMapObj c2) else lookupCell h t)" if "t \<noteq> cc" for t
      using that h' m by (simp add: lookupCell_def)
    have "own n h' cc"
    proof (cases tc)
      case None
      then show ?thesis unfolding own_def l' using ncc nm by simp
    next
      case (Some t)
      show ?thesis
      proof (cases "t = cc")
        case True
        then show ?thesis unfolding own_def l' using ncc nm Some l' by simp
      next
        case False
        from assms(1) l Some have "n \<le> t"
          and "case lookupCell h t of Some (TypeCountersObj es) \<Rightarrow> list_all (\<lambda>e. n \<le> snd e) es | _ \<Rightarrow> True"
          by (simp_all add: own_def)
        then show ?thesis unfolding own_def l' using ncc nm Some lt' [OF False]
          by (auto split: option.splits cell.splits)
      qed
    qed
    with fr h' assms(2) show ?thesis by simp
  qed
qed

lemma takeSpoolNum_frame:
  assumes "own n h cc" and "n \<le> length h" and "takeSpoolNum type h cc = Some (spoolNum, h')"
  shows "take n h' = take n h \<and> n \<le> length h'"
proof -
  from assms(3) obtain cm nc t v es a c where l: "lookupCell h cc = Some (CountersObj cm nc (Some t) v)"
    and lt: "lookupCell h t = Some (TypeCountersObj es)"
    and ma: "map_of es type = Some a"
    and h': "h' = h[a := c]"
    by (auto simp add: takeSpoolNum_def split: option.splits cell.splits)
  from assms(1) l lt have "list_all (\<lambda>e. n \<le> snd e) es" by (simp add: own_def)
  moreover from ma have "(type, a) \<in> set es" by (rule map_of_SomeD)
  ultimately have "n \<le> a" by (auto simp add: list_all_iff)
  with h' assms(2) show ?thesis by simp
qed

lemma generateNewIdAndUpdateCountersH_frame:
  assumes "generateNewIdAndUpdateCountersH typeStr mfgColorStr h currentCounters = Some ((newId, updatedCounters), h')"
  shows "take (length h) h' = h \<and> length h \<le> updatedCounters \<and> updatedCounters < length h'
         \<and> lookupCell h' currentCounters = lookupCell h currentCounters"
proof -
  let ?n = "length h"
  from assms obtain h1 h2 h3 h4 h5 spoolNum where
    s1: "jsonCopyH h currentCounters = Some (updatedCounters, h1)"
    and s2: "ensureColorMap h1 updatedCounters = Some h2"
    and s3: "ensureTypeCounters h2 updatedCounters = Some h3"
    and s4: "ensureTypeEntry (typeCode typeStr) h3 updatedCounters = Some h4"
    and s5: "assignColorCode (orDefault mfgColorStr ''Unknown'') h4 updatedCounters = Some h5"
    and s6: "takeSpoolNum (typeCode typeStr) h5 updatedCounters = Some (spoolNum, h')"
    by (auto simp add: generateNewIdAndUpdateCountersH_def Let_def split: option.splits)
  from jsonCopyH_frame [OF s1] have f1: "take ?n h1 = h" and o1: "own ?n h1 updatedCounters"
    and c1: "updatedCounters < length h1" by simp_all
  from o1 have ncc: "?n \<le> updatedCounters" by (simp add: own_def)
  with c1 have n1: "?n \<le> length h1" by simp
  from ensureColorMap_frame [OF o1 n1 s2] have o2: "own ?n h2 updatedCounters"
    and f2: "take ?n h2 = take ?n h1" and n2: "?n \<le> length h2" by simp_all
  from ensureTypeCounters_frame [OF o2 n2 s3] have o3: "own ?n h3 updatedCounters"
    and f3: "take ?n h3 = take ?n h2" and n3: "?n \<le> length h3" by simp_all
  from ensureTypeEntry_frame [OF o3 n3 s4] have o4: "own ?n h4 updatedCounters"
    and f4: "take ?n h4 = take ?n h3" and n4: "?n \<le> length h4" by simp_all
  from assignColorCode_frame [OF o4 n4 s5] have o5: "own ?n h5 updatedCounters"
    and f5: "take ?n h5 = take ?n h4" and n5: "?n \<le> length h5" by simp_all
  from takeSpoolNum_frame [OF o5 n5 s6] have f6: "take ?n h' = take ?n h5" and n6: "?n \<le> length h'"
    by simp_all
  have fr: "take ?n h' = h" using f1 f2 f3 f4 f5 f6 by simp
  have len: "length h' = length h5"
    using s6 by (auto simp add: takeSpoolNum_def split: option.splits cell.splits)
  have "length h1 \<le> length h2" using s2 by (auto simp add: ensureColorMap_def split: option.splits cell.splits)
  moreover have "length h2 \<le> length h3" using s3 by (auto simp add: ensureTypeCounters_def split: option.splits cell.splits)
  moreover have "length h3 \<le> length h4" using s4 by (auto simp add: ensureTypeEntry_def split: option.splits cell.splits)
  moreover have "length h4 \<le> length h5" using s5 by (auto simp add: assignColorCode_def split: option.splits cell.splits list.splits)
  ultimately have "updatedCounters < length h'" using c1 len by simp
  moreover have "lookupCell h' currentCounters = lookupCell h currentCounters"
  proof -
    from s1 have "currentCounters < length h"
      by (auto simp add: jsonCopyH_def lookupCell_def split: option.splits if_splits)
    moreover from this have "h' ! currentCounters = take ?n h' ! currentCounters" by simp
    ultimately show ?thesis using fr n6 by (simp add: lookupCell_def)
  qed
  ultimately show ?thesis using fr ncc by simp
qed

lemma lookupCell_append: "lookupCell (h @ [c]) a = (if a = length h then Some c else lookupCell h a)"
  by (simp add: lookupCell_def nth_append)

lemma lookupCell_update:
  "lookupCell (h[a := c]) b = (if b = a \<and> a < length h then Some c else lookupCell h b)"
  by (simp add: lookupCell_def)

lemma lookupCell_valid: "lookupCell h a = Some c \<Longrightarrow> a < length h"
  by (simp add: lookupCell_def split: if_splits)

lemma lookupCell_prefix: "take n h' = take n h \<Longrightarrow> n \<le> length h \<Longrightarrow> n \<le> length h' \<Longrightarrow> a < n \<Longrightarrow> lookupCell h' a = lookupCell h a"
  by (metis lookupCell_def nth_take order_less_le_trans)

lemma readEntries_addr:
  "readEntries h es = Some kvs \<Longrightarrow> (k, a) \<in> set es \<Longrightarrow> \<exists>n. lookupCell h a = Some (TypeCounterObj n)"
proof (induction es arbitrary: kvs)
  case Nil
  then show ?case by simp
next
  case (Cons e es)
  obtain k' a' where e: "e = (k', a')" by (cases e)
  from Cons.prems(1) e obtain n rest where "lookupCell h a' = Some (TypeCounterObj n)"
    and "readEntries h es = Some rest"
    by (auto split: option.splits cell.splits)
  with Cons.IH Cons.prems(2) e show ?case by auto
qed

lemma readEntries_cong:
  "\<forall>a \<in> snd ` set es. lookupCell h' a = lookupCell h a \<Longrightarrow> readEntries h' es = readEntries h es"
  by (induction es) (auto split: option.splits cell.splits)

lemma readEntries_keys: "readEntries h es = Some kvs \<Longrightarrow> map fst kvs = map fst es"
  by (induction h es arbitrary: kvs rule: readEntries.induct)
    (auto split: option.splits cell.splits)

lemma readEntries_append:
  assumes "readEntries h es = Some kvs"
  shows "readEntries (h @ [c]) es = Some kvs"
proof -
  have "\<forall>a \<in> snd ` set es. lookupCell (h @ [c]) a = lookupCell h a"
  proof
    fix a assume "a \<in> snd ` set es"
    then obtain k where "(k, a) \<in> set es" by auto
    from readEntries_addr [OF assms this] have "a < length h" by (auto dest: lookupCell_valid)
    then show "lookupCell (h @ [c]) a = lookupCell h a" by (simp add: lookupCell_append)
  qed
  then have "readEntries (h @ [c]) es = readEntries h es" by (rule readEntries_cong)
  with assms show ?thesis by simp
qed

lemma cloneEntries_read:
  "readEntries h es = Some kvs \<Longrightarrow>
     \<exists>es' h'. cloneEntries h es = Some (es', h')
       \<and> readEntries h' es' = Some (map (\<lambda>e. (fst e, jsonNum (snd e))) kvs)
       \<and> distinct (map snd es')
       \<and> (\<forall>a \<in> snd ` set es'. length h \<le> a)
       \<and> take (length h) h' = h \<and> length h \<le> length h'"
proof (induction es arbitrary: h kvs)
  case Nil
  then show ?case by simp
next
  case (Cons e es)
  obtain k a where e: "e = (k, a)" by (cases e)
  from Cons.prems e obtain n rest where
    c: "lookupCell h a = Some (TypeCounterObj n)"
    and r: "readEntries h es = Some rest" and kvs: "kvs = (k, n) # rest"
    by (auto split: option.splits cell.splits)
  let ?h1 = "h @ [TypeCounterObj (jsonNum n)]"
  have "readEntries ?h1 es = Some rest" using r by (rule readEntries_append)
  from Cons.IH [OF this] obtain es1 h' where
    cl: "cloneEntries ?h1 es = Some (es1, h')"
    and rd: "readEntries h' es1 = Some (map (\<lambda>e. (fst e, jsonNum (snd e))) rest)"
    and di: "distinct (map snd es1)"
    and ge: "\<forall>a \<in> snd ` set es1. length ?h1 \<le> a"
    and tk: "take (length ?h1) h' = ?h1" and le: "length ?h1 \<le> length h'"
    by blast
  have tk0: "take (length h) h' = h"
  proof -
    have "take (length h) h' = take (length h) (take (length ?h1) h')" by (simp add: min_def)
    also have "\<dots> = h" by (simp only: tk) simp
    finally show ?thesis .
  qed
  have new: "lookupCell h' (length h) = Some (TypeCounterObj (jsonNum n))"
  proof -
    have "h' ! length h = take (length ?h1) h' ! length h" by simp
    also have "\<dots> = TypeCounterObj (jsonNum n)" by (simp only: tk) simp
    finally show ?thesis using le by (simp add: lookupCell_def)
  qed
  have "cloneEntries h (e # es) = Some ((k, length h) # es1, h')"
    using e c cl by simp
  moreover have "readEntries h' ((k, length h) # es1) = Some (map (\<lambda>e. (fst e, jsonNum (snd e))) kvs)"
    using new rd kvs by simp
  moreover have "distinct (map snd ((k, length h) # es1))"
    using di ge by auto
  moreover have "\<forall>a \<in> snd ` set ((k, length h) # es1). length h \<le> a"
    using ge by auto
  ultimately show ?case using tk0 le by auto
qed

lemma extends_refl: "extends h h"
  by (simp add: extends_def)

lemma extends_append: "extends h (h @ xs)"
  by (simp add: extends_def)

lemma extends_trans: "extends h h' \<Longrightarrow> extends h' h'' \<Longrightarrow> extends h h''"
  by (metis extends_def le_trans min.absorb1 take_take)

lemma extends_lookup: "extends h h' \<Longrightarrow> lookupCell h a = Some c \<Longrightarrow> lookupCell h' a = Some c"
  by (metis extends_def lookupCell_def lookupCell_valid nth_take order_less_le_trans)

lemma readEntries_extend:
  assumes "extends h h'" and "readEntries h es = Some kvs"
  shows "readEntries h' es = Some kvs"
proof -
  have "\<forall>a \<in> snd ` set es. lookupCell h' a = lookupCell h a"
  proof
    fix a assume "a \<in> snd ` set es"
    then obtain k where "(k, a) \<in> set es" by auto
    from readEntries_addr [OF assms(2) this] obtain n where "lookupCell h a = Some (TypeCounterObj n)" by blast
    with extends_lookup [OF assms(1)] show "lookupCell h' a = lookupCell h a" by simp
  qed
  then have "readEntries h' es = readEntries h es" by (rule readEntries_cong)
  with assms(2) show ?thesis by simp
qed

lemma readColorMap_extend:
  "extends h h' \<Longrightarrow> readColorMap h cm = Some x \<Longrightarrow> readColorMap h' cm = Some x"
  by (auto simp add: readColorMap_def split: option.splits cell.splits dest: extends_lookup)

lemma readTypeCounters_extend:
  assumes "extends h h'" and "readTypeCounters h tc = Some x"
  shows "readTypeCounters h' tc = Some x"
proof (cases tc)
  case None
  with assms show ?thesis by (simp add: readTypeCounters_def)
next
  case (Some t)
  with assms(2) obtain es kvs where l: "lookupCell h t = Some (TypeCountersObj es)"
    and r: "readEntries h es = Some kvs" and x: "x = Some (map_of kvs)"
    by (auto simp add: readTypeCounters_def split: option.splits cell.splits)
  from extends_lookup [OF assms(1) l] readEntries_extend [OF assms(1) r] Some x
  show ?thesis by (simp add: readTypeCounters_def)
qed

lemma cloneColorMap_read:
  assumes "readColorMap h cm = Some cmv"
  shows "\<exists>cm' ha. cloneColorMap h cm = Some (cm', ha) \<and> readColorMap ha cm' = Some cmv \<and> extends h ha"
proof (cases cm)
  case None
  with assms show ?thesis by (simp add: cloneColorMap_def extends_refl)
next
  case (Some m)
  with assms obtain kvs where "lookupCell h m = Some (ColorMapObj kvs)" and "cmv = Some (map_of kvs)"
    by (auto simp add: readColorMap_def split: option.splits cell.splits)
  with Some show ?thesis
    by (simp add: cloneColorMap_def readColorMap_def lookupCell_append extends_append)
qed

lemma map_of_jsonNum: "map_of (map (\<lambda>e. (fst e, jsonNum (snd e))) kvs) = map_option jsonNum \<circ> map_of kvs"
  by (induction kvs) (auto simp add: fun_eq_iff)

lemma cloneTypeCounters_read:
  assumes "readTypeCounters h tc = Some tcv"
  shows "\<exists>tc' hb. cloneTypeCounters h tc = Some (tc', hb)
           \<and> readTypeCounters hb tc' = Some (map_option (\<lambda>m. map_option jsonNum \<circ> m) tcv)
           \<and> extends h hb
           \<and> (case tc' of
                 None \<Rightarrow> True
               | Some t' \<Rightarrow> \<exists>es'. lookupCell hb t' = Some (TypeCountersObj es') \<and> distinct (map snd es'))"
proof (cases tc)
  case None
  with assms show ?thesis by (auto simp add: cloneTypeCounters_def readTypeCounters_def extends_refl)
next
  case (Some t)
  with assms obtain es kvs where l: "lookupCell h t = Some (TypeCountersObj es)"
    and r: "readEntries h es = Some kvs" and x: "tcv = Some (map_of kvs)"
    by (auto simp add: readTypeCounters_def split: option.splits cell.splits)
  from cloneEntries_read [OF r] obtain es' h' where
    cl: "cloneEntries h es = Some (es', h')"
    and rd: "readEntries h' es' = Some (map (\<lambda>e. (fst e, jsonNum (snd e))) kvs)"
    and di: "distinct (map snd es')"
    and ex: "take (length h) h' = h" "length h \<le> length h'"
    by blast
  let ?hb = "h' @ [TypeCountersObj es']"
  have c: "cloneTypeCounters h tc = Some (Some (length h'), ?hb)"
    using Some l cl by (simp add: cloneTypeCounters_def)
  have "readEntries ?hb es' = Some (map (\<lambda>e. (fst e, jsonNum (snd e))) kvs)"
    using rd by (rule readEntries_append)
  then have rt: "readTypeCounters ?hb (Some (length h')) = Some (map_option (\<lambda>m. map_option jsonNum \<circ> m) tcv)"
    using x by (simp add: readTypeCounters_def lookupCell_append map_of_jsonNum)
  have "extends h h'" using ex by (simp add: extends_def)
  then have e: "extends h ?hb" using extends_append extends_trans by blast
  from c rt e di show ?thesis by (simp add: lookupCell_append)
qed

lemma jsonCopyH_read:
  assumes "readCounters h r = Some c"
  shows "\<exists>cc h1. jsonCopyH h r = Some (cc, h1) \<and> readCounters h1 cc = Some (jsonCopy c) \<and> separate h1 cc"
proof -
  from assms obtain cm nc tc v cmv tcv where
    l: "lookupCell h r = Some (CountersObj cm nc tc v)"
    and rc: "readColorMap h cm = Some cmv"
    and rt: "readTypeCounters h tc = Some tcv"
    and c: "c = \<lparr>colorMap = cmv, nextColorNum = nc, typeCounters = tcv, version = v\<rparr>"
    by (auto simp add: readCounters_def split: option.splits cell.splits)
  from cloneColorMap_read [OF rc] obtain cm' ha where
    a1: "cloneColorMap h cm = Some (cm', ha)" and a2: "readColorMap ha cm' = Some cmv" and a3: "extends h ha"
    by blast
  from readTypeCounters_extend [OF a3 rt] have "readTypeCounters ha tc = Some tcv" .
  from cloneTypeCounters_read [OF this] obtain tc' hb where
    b1: "cloneTypeCounters ha tc = Some (tc', hb)"
    and b2: "readTypeCounters hb tc' = Some (map_option (\<lambda>m. map_option jsonNum \<circ> m) tcv)"
    and b3: "extends ha hb"
    and b4: "case tc' of None \<Rightarrow> True
             | Some t' \<Rightarrow> \<exists>es'. lookupCell hb t' = Some (TypeCountersObj es') \<and> distinct (map snd es')"
    by blast
  let ?cell = "CountersObj cm' (map_option jsonNum nc) tc' v"
  let ?h1 = "hb @ [?cell]"
  have j: "jsonCopyH h r = Some (length hb, ?h1)"
    using l a1 b1 by (simp add: jsonCopyH_def)
  have e1: "extends hb ?h1" by (rule extends_append)
  have rc1: "readColorMap ?h1 cm' = Some cmv"
    using a2 b3 e1 by (blast intro: readColorMap_extend)
  have rt1: "readTypeCounters ?h1 tc' = Some (map_option (\<lambda>m. map_option jsonNum \<circ> m) tcv)"
    using b2 e1 by (blast intro: readTypeCounters_extend)
  have "readCounters ?h1 (length hb) = Some (jsonCopy c)"
    using rc1 rt1 c by (simp add: readCounters_def lookupCell_append jsonCopy_def)
  moreover have "separate ?h1 (length hb)"
  proof (cases tc')
    case None
    then show ?thesis by (simp add: separate_def lookupCell_append)
  next
    case (Some t')
    with b4 obtain es' where "lookupCell hb t' = Some (TypeCountersObj es')" and d: "distinct (map snd es')"
      by auto
    from extends_lookup [OF e1 this(1)] d Some show ?thesis
      by (simp add: separate_def lookupCell_append)
  qed
  ultimately show ?thesis using j by blast
qed

lemma readCountersD:
  assumes "readCounters h cc = Some c"
  obtains cm nc tc v where "lookupCell h cc = Some (CountersObj cm nc tc v)"
    and "readColorMap h cm = Some (colorMap c)" and "readTypeCounters h tc = Some (typeCounters c)"
    and "nextColorNum c = nc" and "version c = v"
  using assms by (auto simp add: readCounters_def split: option.splits cell.splits)

lemma readCountersI:
  assumes "lookupCell h cc = Some (CountersObj cm nc tc v)"
    and "readColorMap h cm = Some cmv" and "readTypeCounters h tc = Some tcv"
  shows "readCounters h cc = Some \<lparr>colorMap = cmv, nextColorNum = nc, typeCounters = tcv, version = v\<rparr>"
  using assms by (simp add: readCounters_def)

lemma readColorMap_cong:
  assumes "readColorMap h cm = Some x"
    and "\<And>a kvs. lookupCell h a = Some (ColorMapObj kvs) \<Longrightarrow> lookupCell h' a = Some (ColorMapObj kvs)"
  shows "readColorMap h' cm = Some x"
  using assms by (auto simp add: readColorMap_def split: option.splits cell.splits)

lemma readTypeCounters_cong:
  assumes "readTypeCounters h tc = Some x"
    and t: "\<And>a es. lookupCell h a = Some (TypeCountersObj es) \<Longrightarrow> lookupCell h' a = Some (TypeCountersObj es)"
    and e: "\<And>a n. lookupCell h a = Some (TypeCounterObj n) \<Longrightarrow> lookupCell h' a = Some (TypeCounterObj n)"
  shows "readTypeCounters h' tc = Some x"
proof (cases tc)
  case None
  with assms(1) show ?thesis by (simp add: readTypeCounters_def)
next
  case (Some t0)
  with assms(1) obtain es kvs where l: "lookupCell h t0 = Some (TypeCountersObj es)"
    and r: "readEntries h es = Some kvs" and x: "x = Some (map_of kvs)"
    by (auto simp add: readTypeCounters_def split: option.splits cell.splits)
  have "\<forall>a \<in> snd ` set es. lookupCell h' a = lookupCell h a"
  proof
    fix a assume "a \<in> snd ` set es"
    then obtain k where "(k, a) \<in> set es" by auto
    from readEntries_addr [OF r this] obtain n where "lookupCell h a = Some (TypeCounterObj n)" by blast
    with e show "lookupCell h' a = lookupCell h a" by simp
  qed
  then have "readEntries h' es = readEntries h es" by (rule readEntries_cong)
  with t [OF l] r x Some show ?thesis by (simp add: readTypeCounters_def)
qed

lemma separate_cong:
  assumes "separate h cc" and "lookupCell h cc = Some (CountersObj cm nc tc v)"
    and "lookupCell h' cc = Some (CountersObj cm' nc' tc v')"
    and "\<And>a es. lookupCell h a = Some (TypeCountersObj es) \<Longrightarrow> lookupCell h' a = Some (TypeCountersObj es)"
    and "readTypeCounters h tc = Some x"
  shows "separate h' cc"
proof (cases tc)
  case None
  with assms(3) show ?thesis by (simp add: separate_def)
next
  case (Some t)
  with assms(5) obtain es where l: "lookupCell h t = Some (TypeCountersObj es)"
    by (auto simp add: readTypeCounters_def split: option.splits cell.splits)
  with assms(1,2) Some have "distinct (map snd es)" by (simp add: separate_def)
  with assms(3) assms(4) [OF l] Some show ?thesis by (simp add: separate_def)
qed

lemma ensureColorMap_read:
  assumes "readCounters h cc = Some c" and "separate h cc"
  shows "\<exists>h'. ensureColorMap h cc = Some h' \<and> readCounters h' cc = Some (ensureColorMapV c) \<and> separate h' cc"
proof -
  from assms(1) obtain cm nc tc v where l: "lookupCell h cc = Some (CountersObj cm nc tc v)"
    and rc: "readColorMap h cm = Some (colorMap c)" and rt: "readTypeCounters h tc = Some (typeCounters c)"
    and nc: "nextColorNum c = nc" and v: "version c = v"
    by (rule readCountersD)
  from l have cc: "cc < length h" by (rule lookupCell_valid)
  show ?thesis
  proof (cases cm)
    case (Some m)
    with rc have "colorMap c \<noteq> None"
      by (cases "colorMap c") (auto simp add: readColorMap_def split: option.splits cell.splits)
    with Some l assms show ?thesis by (auto simp add: ensureColorMap_def ensureColorMapV_def)
  next
    case None
    with rc have cn: "colorMap c = None" by (simp add: readColorMap_def)
    let ?h' = "(h @ [ColorMapObj []])[cc := CountersObj (Some (length h)) (Some (Num 1)) tc v]"
    have e: "ensureColorMap h cc = Some ?h'" using None l by (simp add: ensureColorMap_def)
    have l': "lookupCell ?h' cc = Some (CountersObj (Some (length h)) (Some (Num 1)) tc v)"
      using cc by (simp add: lookupCell_update)
    have keep: "lookupCell ?h' a = lookupCell h a" if "a \<noteq> cc" "a < length h" for a
      using that by (simp add: lookupCell_update lookupCell_append)
    have k1: "lookupCell ?h' a = Some (TypeCountersObj es)" if "lookupCell h a = Some (TypeCountersObj es)" for a es
    proof -
      from that l have "a \<noteq> cc" by auto
      moreover from that have "a < length h" by (rule lookupCell_valid)
      ultimately show ?thesis using keep that by simp
    qed
    have k2: "lookupCell ?h' a = Some (TypeCounterObj n)" if "lookupCell h a = Some (TypeCounterObj n)" for a n
    proof -
      from that l have "a \<noteq> cc" by auto
      moreover from that have "a < length h" by (rule lookupCell_valid)
      ultimately show ?thesis using keep that by simp
    qed
    have rt': "readTypeCounters ?h' tc = Some (typeCounters c)"
      using rt k1 k2 by (rule readTypeCounters_cong)
    have rc': "readColorMap ?h' (Some (length h)) = Some (Some Map.empty)"
      using cc by (simp add: readColorMap_def lookupCell_update lookupCell_append)
    from readCountersI [OF l' rc' rt']
    have "readCounters ?h' cc = Some (ensureColorMapV c)"
      using cn nc v by (simp add: ensureColorMapV_def)
    moreover have "separate ?h' cc"
      using assms(2) l l' k1 rt by (rule separate_cong)
    ultimately show ?thesis using e by blast
  qed
qed

lemma ensureTypeCounters_read:
  assumes "readCounters h cc = Some c" and "separate h cc"
  shows "\<exists>h'. ensureTypeCounters h cc = Some h' \<and> readCounters h' cc = Some (ensureTypeCountersV c) \<and> separate h' cc"
proof -
  from assms(1) obtain cm nc tc v where l: "lookupCell h cc = Some (CountersObj cm nc tc v)"
    and rc: "readColorMap h cm = Some (colorMap c)" and rt: "readTypeCounters h tc = Some (typeCounters c)"
    and nc: "nextColorNum c = nc" and v: "version c = v"
    by (rule readCountersD)
  from l have cc: "cc < length h" by (rule lookupCell_valid)
  show ?thesis
  proof (cases tc)
    case (Some t)
    with rt have "typeCounters c \<noteq> None"
      by (cases "typeCounters c") (auto simp add: readTypeCounters_def split: option.splits cell.splits)
    with Some l assms show ?thesis by (auto simp add: ensureTypeCounters_def ensureTypeCountersV_def)
  next
    case None
    with rt have tn: "typeCounters c = None" by (simp add: readTypeCounters_def)
    let ?h' = "(h @ [TypeCountersObj []])[cc := CountersObj cm nc (Some (length h)) v]"
    have e: "ensureTypeCounters h cc = Some ?h'" using None l by (simp add: ensureTypeCounters_def)
    have l': "lookupCell ?h' cc = Some (CountersObj cm nc (Some (length h)) v)"
      using cc by (simp add: lookupCell_update)
    have keep: "lookupCell ?h' a = lookupCell h a" if "a \<noteq> cc" "a < length h" for a
      using that by (simp add: lookupCell_update lookupCell_append)
    have k0: "lookupCell ?h' a = Some (ColorMapObj kvs)" if "lookupCell h a = Some (ColorMapObj kvs)" for a kvs
    proof -
      from that l have "a \<noteq> cc" by auto
      moreover from that have "a < length h" by (rule lookupCell_valid)
      ultimately show ?thesis using keep that by simp
    qed
    have rc': "readColorMap ?h' cm = Some (colorMap c)"
      using rc k0 by (rule readColorMap_cong)
    have rt': "readTypeCounters ?h' (Some (length h)) = Some (Some Map.empty)"
      using cc by (simp add: readTypeCounters_def lookupCell_update lookupCell_append)
    from readCountersI [OF l' rc' rt']
    have "readCounters ?h' cc = Some (ensureTypeCountersV c)"
      using tn nc v by (simp add: ensureTypeCountersV_def)
    moreover have "separate ?h' cc"
      using cc by (simp add: separate_def lookupCell_update lookupCell_append)
    ultimately show ?thesis using e by blast
  qed
qed

lemma readEntries_snoc:
  "readEntries h es = Some kvs \<Longrightarrow> lookupCell h a = Some (TypeCounterObj n) \<Longrightarrow>
     readEntries h (es @ [(k, a)]) = Some (kvs @ [(k, n)])"
  by (induction es arbitrary: kvs) (auto split: option.splits cell.splits)

lemma map_of_snoc_fresh: "map_of kvs k = None \<Longrightarrow> map_of (kvs @ [(k, v)]) = (map_of kvs)(k \<mapsto> v)"
  by (auto simp add: fun_eq_iff map_add_def split: option.splits)

lemma map_of_setKey: "map_of (setKey k v kvs) = (map_of kvs)(k \<mapsto> v)"
  by (induction kvs) (auto simp add: fun_eq_iff)

lemma readEntries_absent:
  assumes "readEntries h es = Some kvs"
  shows "map_of es k = None \<longleftrightarrow> map_of kvs k = None"
  using readEntries_keys [OF assms] by (metis map_of_eq_None_iff set_map)

lemma ensureTypeEntry_read:
  assumes "readCounters h cc = Some c" and "separate h cc" and "typeCounters c \<noteq> None"
  shows "\<exists>h'. ensureTypeEntry type h cc = Some h' \<and> readCounters h' cc = Some (ensureTypeEntryV type c) \<and> separate h' cc"
proof -
  from assms(1) obtain cm nc tc v where l: "lookupCell h cc = Some (CountersObj cm nc tc v)"
    and rc: "readColorMap h cm = Some (colorMap c)" and rt: "readTypeCounters h tc = Some (typeCounters c)"
    and nc: "nextColorNum c = nc" and v: "version c = v"
    by (rule readCountersD)
  from rt assms(3) obtain t es kvs where tc: "tc = Some t"
    and lt: "lookupCell h t = Some (TypeCountersObj es)"
    and re: "readEntries h es = Some kvs" and tcs: "typeCounters c = Some (map_of kvs)"
    by (cases tc) (auto simp add: readTypeCounters_def split: option.splits cell.splits)
  from l have cc: "cc < length h" by (rule lookupCell_valid)
  from lt have t: "t < length h" by (rule lookupCell_valid)
  from l lt have ne: "t \<noteq> cc" by auto
  from assms(2) l tc lt have di: "distinct (map snd es)" by (simp add: separate_def)
  show ?thesis
  proof (cases "map_of es type")
    case (Some a)
    then have "map_of kvs type \<noteq> None" using readEntries_absent [OF re, of type] by simp
    then have "ensureTypeEntryV type c = c" using tcs by (auto simp add: ensureTypeEntryV_def)
    with Some l tc lt assms show ?thesis by (simp add: ensureTypeEntry_def)
  next
    case None
    then have fresh: "map_of kvs type = None" using readEntries_absent [OF re, of type] by simp
    let ?h' = "(h @ [TypeCounterObj (Num 1)])[t := TypeCountersObj (es @ [(type, length h)])]"
    have e: "ensureTypeEntry type h cc = Some ?h'" using None l tc lt by (simp add: ensureTypeEntry_def)
    have keep: "lookupCell ?h' a = lookupCell h a" if "a \<noteq> t" "a < length h" for a
      using that by (simp add: lookupCell_update lookupCell_append)
    have l': "lookupCell ?h' cc = Some (CountersObj cm nc tc v)"
      using keep [of cc] ne cc l by simp
    have lt': "lookupCell ?h' t = Some (TypeCountersObj (es @ [(type, length h)]))"
      using t by (simp add: lookupCell_update)
    have new: "lookupCell ?h' (length h) = Some (TypeCounterObj (Num 1))"
      using t by (simp add: lookupCell_update lookupCell_append)
    have k0: "lookupCell ?h' a = Some (ColorMapObj kvs0)" if "lookupCell h a = Some (ColorMapObj kvs0)" for a kvs0
    proof -
      from that lt have "a \<noteq> t" by auto
      moreover from that have "a < length h" by (rule lookupCell_valid)
      ultimately show ?thesis using keep that by simp
    qed
    have rc': "readColorMap ?h' cm = Some (colorMap c)"
      using rc k0 by (rule readColorMap_cong)
    have "\<forall>a \<in> snd ` set es. lookupCell ?h' a = lookupCell h a"
    proof
      fix a assume "a \<in> snd ` set es"
      then obtain k where "(k, a) \<in> set es" by auto
      from readEntries_addr [OF re this] obtain n where la: "lookupCell h a = Some (TypeCounterObj n)" by blast
      with lt have "a \<noteq> t" by auto
      moreover from la have "a < length h" by (rule lookupCell_valid)
      ultimately show "lookupCell ?h' a = lookupCell h a" using keep by simp
    qed
    then have "readEntries ?h' es = readEntries h es" by (rule readEntries_cong)
    with re have "readEntries ?h' es = Some kvs" by simp
    from readEntries_snoc [OF this new]
    have "readEntries ?h' (es @ [(type, length h)]) = Some (kvs @ [(type, Num 1)])" .
    moreover have "map_of (kvs @ [(type, x)]) = (map_of kvs)(type \<mapsto> x)" for x
      using fresh by (rule map_of_snoc_fresh)
    ultimately have rt': "readTypeCounters ?h' tc = Some (Some ((map_of kvs)(type \<mapsto> Num 1)))"
      using tc lt' by (simp add: readTypeCounters_def del: map_of_append)
    from readCountersI [OF l' rc' rt']
    have "readCounters ?h' cc = Some (ensureTypeEntryV type c)"
      using tcs fresh nc v by (simp add: ensureTypeEntryV_def)
    moreover have "separate ?h' cc"
    proof -
      have "length h \<notin> snd ` set es"
      proof
        assume "length h \<in> snd ` set es"
        then obtain k where "(k, length h) \<in> set es" by auto
        from readEntries_addr [OF re this] show False by (auto dest: lookupCell_valid)
      qed
      with di have "distinct (map snd (es @ [(type, length h)]))" by simp
      with l' lt' tc show ?thesis by (simp add: separate_def)
    qed
    ultimately show ?thesis using e by blast
  qed
qed

lemma assignColorCode_read:
  assumes "readCounters h cc = Some c" and "separate h cc" and "colorMap c \<noteq> None"
  shows "\<exists>h'. assignColorCode mfgColor h cc = Some h' \<and> readCounters h' cc = Some (assignColorCodeV mfgColor c) \<and> separate h' cc"
proof -
  from assms(1) obtain cm nc tc v where l: "lookupCell h cc = Some (CountersObj cm nc tc v)"
    and rc: "readColorMap h cm = Some (colorMap c)" and rt: "readTypeCounters h tc = Some (typeCounters c)"
    and nc: "nextColorNum c = nc" and v: "version c = v"
    by (rule readCountersD)
  from rc assms(3) obtain m kvs where cm: "cm = Some m"
    and lm: "lookupCell h m = Some (ColorMapObj kvs)" and cmap: "colorMap c = Some (map_of kvs)"
    by (cases cm) (auto simp add: readColorMap_def split: option.splits cell.splits)
  from l have cc: "cc < length h" by (rule lookupCell_valid)
  from lm have m: "m < length h" by (rule lookupCell_valid)
  from l lm have ne: "m \<noteq> cc" by auto
  show ?thesis
  proof (cases "\<exists>ch code. map_of kvs mfgColor = Some (ch # code)")
    case True
    then have "assignColorCodeV mfgColor c = c" using cmap by (auto simp add: assignColorCodeV_def)
    moreover have "assignColorCode mfgColor h cc = Some h"
      using True l cm lm by (auto simp add: assignColorCode_def)
    ultimately show ?thesis using assms by simp
  next
    case False
    let ?code = "padStart 3 (CHR ''0'') (numToString (toNumber nc))"
    let ?h' = "h[cc := CountersObj (Some m) (Some (increment (toNumber nc))) tc v,
                 m := ColorMapObj (setKey mfgColor ?code kvs)]"
    have e: "assignColorCode mfgColor h cc = Some ?h'"
      using False l cm lm by (auto simp add: assignColorCode_def split: option.splits list.splits)
    have v': "assignColorCodeV mfgColor c =
                c\<lparr>colorMap := Some ((map_of kvs)(mfgColor \<mapsto> ?code)), nextColorNum := Some (increment (toNumber nc))\<rparr>"
      using False cmap nc by (auto simp add: assignColorCodeV_def split: option.splits list.splits)
    have keep: "lookupCell ?h' a = lookupCell h a" if "a \<noteq> cc" "a \<noteq> m" for a
      using that by (simp add: lookupCell_update)
    have l': "lookupCell ?h' cc = Some (CountersObj (Some m) (Some (increment (toNumber nc))) tc v)"
      using cc ne by (simp add: lookupCell_update)
    have lm': "lookupCell ?h' m = Some (ColorMapObj (setKey mfgColor ?code kvs))"
      using m by (simp add: lookupCell_update)
    have k1: "lookupCell ?h' a = Some (TypeCountersObj es)" if "lookupCell h a = Some (TypeCountersObj es)" for a es
    proof -
      from that l lm have "a \<noteq> cc" "a \<noteq> m" by auto
      then show ?thesis using keep that by simp
    qed
    have k2: "lookupCell ?h' a = Some (TypeCounterObj n)" if "lookupCell h a = Some (TypeCounterObj n)" for a n
    proof -
      from that l lm have "a \<noteq> cc" "a \<noteq> m" by auto
      then show ?thesis using keep that by simp
    qed
    have rt': "readTypeCounters ?h' tc = Some (typeCounters c)"
      using rt k1 k2 by (rule readTypeCounters_cong)
    have rc': "readColorMap ?h' (Some m) = Some (Some ((map_of kvs)(mfgColor \<mapsto> ?code)))"
      using lm' by (simp add: readColorMap_def map_of_setKey)
    from readCountersI [OF l' rc' rt']
    have "readCounters ?h' cc = Some (assignColorCodeV mfgColor c)"
      using v' v by simp
    moreover have "separate ?h' cc"
      using assms(2) l l' k1 rt by (rule separate_cong)
    ultimately show ?thesis using e by blast
  qed
qed

lemma readEntries_update:
  "distinct (map snd es) \<Longrightarrow> readEntries h es = Some kvs \<Longrightarrow> map_of es type = Some a \<Longrightarrow>
     \<exists>kvs' n. readEntries (h[a := TypeCounterObj n']) es = Some kvs'
        \<and> map_of kvs' = (map_of kvs)(type \<mapsto> n')
        \<and> lookupCell h a = Some (TypeCounterObj n) \<and> map_of kvs type = Some n"
proof (induction es arbitrary: kvs)
  case Nil
  then show ?case by simp
next
  case (Cons e es)
  obtain k b where e: "e = (k, b)" by (cases e)
  from Cons.prems(2) e obtain nb rest where lb: "lookupCell h b = Some (TypeCounterObj nb)"
    and rr: "readEntries h es = Some rest" and kvs: "kvs = (k, nb) # rest"
    by (auto split: option.splits cell.splits)
  from Cons.prems(1) e have db: "b \<notin> snd ` set es" and di: "distinct (map snd es)" by auto
  from lb have bl: "b < length h" by (rule lookupCell_valid)
  show ?case
  proof (cases "k = type")
    case True
    with Cons.prems(3) e have a: "a = b" by simp
    have "\<forall>x \<in> snd ` set es. lookupCell (h[a := TypeCounterObj n']) x = lookupCell h x"
      using db a by (auto simp add: lookupCell_update)
    then have "readEntries (h[a := TypeCounterObj n']) es = readEntries h es" by (rule readEntries_cong)
    with rr have "readEntries (h[a := TypeCounterObj n']) (e # es) = Some ((k, n') # rest)"
      using e a bl by (simp add: lookupCell_update)
    moreover have "map_of ((k, n') # rest) = (map_of kvs)(type \<mapsto> n')"
      using True kvs by (simp add: fun_eq_iff)
    ultimately show ?thesis using lb a True kvs by auto
  next
    case False
    with Cons.prems(3) e have ma: "map_of es type = Some a" by simp
    then have "a \<in> snd ` set es" by (metis image_eqI map_of_SomeD snd_conv)
    with db have ab: "a \<noteq> b" by auto
    from Cons.IH [OF di rr ma] obtain kvs1 n where
      r1: "readEntries (h[a := TypeCounterObj n']) es = Some kvs1"
      and m1: "map_of kvs1 = (map_of rest)(type \<mapsto> n')"
      and la: "lookupCell h a = Some (TypeCounterObj n)" and mn: "map_of rest type = Some n"
      by blast
    have "readEntries (h[a := TypeCounterObj n']) (e # es) = Some ((k, nb) # kvs1)"
      using e ab lb r1 by (simp add: lookupCell_update)
    moreover have "map_of ((k, nb) # kvs1) = (map_of kvs)(type \<mapsto> n')"
      using False kvs m1 by (auto simp add: fun_eq_iff)
    moreover have "map_of kvs type = Some n" using False kvs mn by simp
    ultimately show ?thesis using la by blast
  qed
qed

lemma takeSpoolNum_read:
  assumes "readCounters h cc = Some c" and "separate h cc"
    and "typeCounters c = Some tcs" and "tcs type = Some n"
  shows "\<exists>h'. takeSpoolNum type h cc = Some (padStart 4 (CHR ''0'') (numToString (toNumber (Some n))), h')
           \<and> readCounters h' cc = Some (c\<lparr>typeCounters := Some (tcs(type \<mapsto> increment (toNumber (Some n))))\<rparr>)"
proof -
  from assms(1) obtain cm nc tc v where l: "lookupCell h cc = Some (CountersObj cm nc tc v)"
    and rc: "readColorMap h cm = Some (colorMap c)" and rt: "readTypeCounters h tc = Some (typeCounters c)"
    and nc: "nextColorNum c = nc" and v: "version c = v"
    by (rule readCountersD)
  from rt assms(3) obtain t es kvs where tc: "tc = Some t"
    and lt: "lookupCell h t = Some (TypeCountersObj es)"
    and re: "readEntries h es = Some kvs" and tcs: "tcs = map_of kvs"
    by (cases tc) (auto simp add: readTypeCounters_def split: option.splits cell.splits)
  from assms(2) l tc lt have di: "distinct (map snd es)" by (simp add: separate_def)
  from assms(4) tcs have "map_of kvs type \<noteq> None" by simp
  then obtain a where ma: "map_of es type = Some a"
    using readEntries_absent [OF re, of type] by (cases "map_of es type") auto
  let ?n' = "increment (toNumber (Some n))"
  from readEntries_update [OF di re ma, of ?n'] obtain kvs' n0 where
    r': "readEntries (h[a := TypeCounterObj ?n']) es = Some kvs'"
    and m': "map_of kvs' = (map_of kvs)(type \<mapsto> ?n')"
    and la: "lookupCell h a = Some (TypeCounterObj n0)" and mn: "map_of kvs type = Some n0"
    by blast
  from mn assms(4) tcs have n0: "n0 = n" by simp
  let ?h' = "h[a := TypeCounterObj ?n']"
  have e: "takeSpoolNum type h cc = Some (padStart 4 (CHR ''0'') (numToString (toNumber (Some n))), ?h')"
    using l tc lt ma la n0 by (simp add: takeSpoolNum_def)
  from la l lt have ne: "a \<noteq> cc" "a \<noteq> t" by auto
  have l': "lookupCell ?h' cc = Some (CountersObj cm nc tc v)"
    using l ne by (simp add: lookupCell_update)
  have lt': "lookupCell ?h' t = Some (TypeCountersObj es)"
    using lt ne by (simp add: lookupCell_update)
  have k0: "lookupCell ?h' x = Some (ColorMapObj kvs0)" if "lookupCell h x = Some (ColorMapObj kvs0)" for x kvs0
  proof -
    from that la have "x \<noteq> a" by auto
    then show ?thesis using that by (simp add: lookupCell_update)
  qed
  have rc': "readColorMap ?h' cm = Some (colorMap c)"
    using rc k0 by (rule readColorMap_cong)
  have rt': "readTypeCounters ?h' tc = Some (Some (tcs(type \<mapsto> ?n')))"
    using tc lt' r' m' tcs by (simp add: readTypeCounters_def)
  from readCountersI [OF l' rc' rt']
  have "readCounters ?h' cc = Some (c\<lparr>typeCounters := Some (tcs(type \<mapsto> ?n'))\<rparr>)"
    using nc v by simp
  with e show ?thesis by blast
qed

lemma readColorCode_read:
  assumes "readCounters h cc = Some c" and "colorMap c = Some cmap"
  shows "readColorCode mfgColor h cc = cmap mfgColor"
proof -
  from assms(1) obtain cm nc tc v where l: "lookupCell h cc = Some (CountersObj cm nc tc v)"
    and rc: "readColorMap h cm = Some (colorMap c)"
    by (rule readCountersD)
  from rc assms(2) obtain m kvs where "cm = Some m" "lookupCell h m = Some (ColorMapObj kvs)" "cmap = map_of kvs"
    by (cases cm) (auto simp add: readColorMap_def split: option.splits cell.splits)
  with l show ?thesis by (simp add: readColorCode_def)
qed

lemma prepared_shape:
  "\<exists>tcs n cmap code.
     typeCounters (prepared (typeCode typeStr) (orDefault mfgColorStr ''Unknown'') c) = Some tcs
     \<and> tcs (typeCode typeStr) = Some n
     \<and> colorMap (prepared (typeCode typeStr) (orDefault mfgColorStr ''Unknown'') c) = Some cmap
     \<and> cmap (orDefault mfgColorStr ''Unknown'') = Some code
     \<and> generateNewIdAndUpdateCounters typeStr mfgColorStr c =
           (typeCode typeStr @ ''-'' @ padStart 4 (CHR ''0'') (numToString (toNumber (Some n))) @ ''-'' @ code,
            (prepared (typeCode typeStr) (orDefault mfgColorStr ''Unknown'') c)
              \<lparr>typeCounters := Some (tcs(typeCode typeStr \<mapsto> increment (toNumber (Some n))))\<rparr>)"
  by (auto simp add: prepared_def generateNewIdAndUpdateCounters_def Let_def
        ensureColorMapV_def ensureTypeCountersV_def ensureTypeEntryV_def assignColorCodeV_def
      split: option.splits list.splits)

lemma readCounters_extend:
  assumes "extends h h'" and "readCounters h r = Some c"
  shows "readCounters h' r = Some c"
proof -
  from assms(2) obtain cm nc tc v where l: "lookupCell h r = Some (CountersObj cm nc tc v)"
    and rc: "readColorMap h cm = Some (colorMap c)" and rt: "readTypeCounters h tc = Some (typeCounters c)"
    and nc: "nextColorNum c = nc" and v: "version c = v"
    by (rule readCountersD)
  from readCountersI [OF extends_lookup [OF assms(1) l] readColorMap_extend [OF assms(1) rc]
      readTypeCounters_extend [OF assms(1) rt]] nc v
  show ?thesis by simp
qed

text \<open>
  C10. Whenever the caller's counters are well-formed, the allocator returns; the id and
  the counters read at the returned address are those the allocator computes on the
  counters as a value; every cell of the store that existed before the call is unchanged;
  the returned counters are a new object; and the caller's counters, read after the call,
  are what they were before it.
\<close>

theorem allocate_copies_before_writing:
  assumes "readCounters h currentCounters = Some c"
  shows "\<exists>newId updatedCounters h'.
           generateNewIdAndUpdateCountersH typeStr mfgColorStr h currentCounters = Some ((newId, updatedCounters), h')
           \<and> newId = fst (generateNewIdAndUpdateCounters typeStr mfgColorStr c)
           \<and> readCounters h' updatedCounters = Some (snd (generateNewIdAndUpdateCounters typeStr mfgColorStr c))
           \<and> take (length h) h' = h \<and> length h \<le> updatedCounters
           \<and> readCounters h' currentCounters = Some c"
proof -
  let ?type = "typeCode typeStr" and ?color = "orDefault mfgColorStr ''Unknown''"
  from jsonCopyH_read [OF assms] obtain cc h1 where
    s1: "jsonCopyH h currentCounters = Some (cc, h1)"
    and r1: "readCounters h1 cc = Some (jsonCopy c)" and p1: "separate h1 cc"
    by blast
  from ensureColorMap_read [OF r1 p1] obtain h2 where
    s2: "ensureColorMap h1 cc = Some h2"
    and r2: "readCounters h2 cc = Some (ensureColorMapV (jsonCopy c))" and p2: "separate h2 cc"
    by blast
  from ensureTypeCounters_read [OF r2 p2] obtain h3 where
    s3: "ensureTypeCounters h2 cc = Some h3"
    and r3: "readCounters h3 cc = Some (ensureTypeCountersV (ensureColorMapV (jsonCopy c)))" and p3: "separate h3 cc"
    by blast
  have t3: "typeCounters (ensureTypeCountersV (ensureColorMapV (jsonCopy c))) \<noteq> None"
    by (simp add: ensureTypeCountersV_def)
  from ensureTypeEntry_read [OF r3 p3 t3] obtain h4 where
    s4: "ensureTypeEntry ?type h3 cc = Some h4"
    and r4: "readCounters h4 cc = Some (ensureTypeEntryV ?type (ensureTypeCountersV (ensureColorMapV (jsonCopy c))))"
    and p4: "separate h4 cc"
    by blast
  have c4: "colorMap (ensureTypeEntryV ?type (ensureTypeCountersV (ensureColorMapV (jsonCopy c)))) \<noteq> None"
    by (simp add: ensureTypeEntryV_def ensureTypeCountersV_def ensureColorMapV_def split: option.splits)
  from assignColorCode_read [OF r4 p4 c4] obtain h5 where
    s5: "assignColorCode ?color h4 cc = Some h5"
    and r5: "readCounters h5 cc = Some (prepared ?type ?color c)" and p5: "separate h5 cc"
    unfolding prepared_def by blast
  from prepared_shape [of typeStr mfgColorStr c] obtain tcs n cmap code where
    a: "typeCounters (prepared ?type ?color c) = Some tcs" and b: "tcs ?type = Some n"
    and d: "colorMap (prepared ?type ?color c) = Some cmap" and e: "cmap ?color = Some code"
    and g: "generateNewIdAndUpdateCounters typeStr mfgColorStr c =
           (?type @ ''-'' @ padStart 4 (CHR ''0'') (numToString (toNumber (Some n))) @ ''-'' @ code,
            (prepared ?type ?color c)\<lparr>typeCounters := Some (tcs(?type \<mapsto> increment (toNumber (Some n))))\<rparr>)"
    by blast
  from takeSpoolNum_read [OF r5 p5 a b] obtain h6 where
    s6: "takeSpoolNum ?type h5 cc = Some (padStart 4 (CHR ''0'') (numToString (toNumber (Some n))), h6)"
    and r6: "readCounters h6 cc = Some ((prepared ?type ?color c)\<lparr>typeCounters := Some (tcs(?type \<mapsto> increment (toNumber (Some n))))\<rparr>)"
    by blast
  have d6: "colorMap ((prepared ?type ?color c)\<lparr>typeCounters := Some (tcs(?type \<mapsto> increment (toNumber (Some n))))\<rparr>) = Some cmap"
    using d by simp
  from readColorCode_read [OF r6 d6, of ?color] e have s7: "readColorCode ?color h6 cc = Some code" by simp
  have run: "generateNewIdAndUpdateCountersH typeStr mfgColorStr h currentCounters =
      Some ((?type @ ''-'' @ padStart 4 (CHR ''0'') (numToString (toNumber (Some n))) @ ''-'' @ code, cc), h6)"
    using s1 s2 s3 s4 s5 s6 s7 by (simp add: generateNewIdAndUpdateCountersH_def Let_def)
  from generateNewIdAndUpdateCountersH_frame [OF run]
  have fr: "take (length h) h6 = h" and new: "length h \<le> cc" and len: "cc < length h6" by simp_all
  then have "extends h h6" by (simp add: extends_def)
  from readCounters_extend [OF this assms] have "readCounters h6 currentCounters = Some c" .
  with run g r6 fr new show ?thesis by simp
qed

text \<open>
  At the example store: the caller's counters are read as the example counters, the call
  returns PLA-0002-002 and the updated counters at the new address 7, and the four cells
  of the caller are unchanged. On the store holding only \<^verbatim>\<open>{}\<close> the call builds the
  colour map, the table and the counter next to the untouched \<^verbatim>\<open>{}\<close>.
\<close>

theorem allocate_copies_before_writing_witness:
  "readCounters exampleHeap 0 = Some exampleCounters
   \<and> (\<exists>updatedCounters h'.
         generateNewIdAndUpdateCountersH (Some ''PLA'') (Some ''Arctic White'') exampleHeap 0
           = Some ((''PLA-0002-002'', updatedCounters), h')
         \<and> take (length exampleHeap) h' = exampleHeap \<and> length exampleHeap \<le> updatedCounters
         \<and> readCounters h' 0 = Some exampleCounters)
   \<and> generateNewIdAndUpdateCountersH (Some ''PLA'') (Some ''Arctic White'') exampleHeap 0 =
       Some ((''PLA-0002-002'', 7),
         [CountersObj (Some 1) (Some (Num 2)) (Some 2) (Some 3),
          ColorMapObj [(''Galaxy Black'', ''001'')],
          TypeCountersObj [(''PLA'', 3)],
          TypeCounterObj (Num 2),
          ColorMapObj [(''Galaxy Black'', ''001''), (''Arctic White'', ''002'')],
          TypeCounterObj (Num 3),
          TypeCountersObj [(''PLA'', 5)],
          CountersObj (Some 4) (Some (Num 3)) (Some 6) (Some 3)])
   \<and> generateNewIdAndUpdateCountersH (Some ''PETG'') (Some ''Galaxy Black'') [CountersObj None None None None] 0 =
       Some ((''PETG-0001-001'', 1),
         [CountersObj None None None None,
          CountersObj (Some 2) (Some (Num 2)) (Some 3) None,
          ColorMapObj [(''Galaxy Black'', ''001'')],
          TypeCountersObj [(''PETG'', 4)],
          TypeCounterObj (Num 2)])"
proof -
  have h: "readCounters exampleHeap 0 = Some exampleCounters"
    by (simp add: readCounters_def readColorMap_def readTypeCounters_def lookupCell_def
        exampleHeap_def exampleCounters_def)
  have p: "fst (generateNewIdAndUpdateCounters (Some ''PLA'') (Some ''Arctic White'') exampleCounters) = ''PLA-0002-002''"
    by code_simp
  from allocate_copies_before_writing [OF h, of "Some ''PLA''" "Some ''Arctic White''"] p
  have "\<exists>updatedCounters h'.
         generateNewIdAndUpdateCountersH (Some ''PLA'') (Some ''Arctic White'') exampleHeap 0
           = Some ((''PLA-0002-002'', updatedCounters), h')
         \<and> take (length exampleHeap) h' = exampleHeap \<and> length exampleHeap \<le> updatedCounters
         \<and> readCounters h' 0 = Some exampleCounters"
    by auto
  moreover have "generateNewIdAndUpdateCountersH (Some ''PLA'') (Some ''Arctic White'') exampleHeap 0 =
       Some ((''PLA-0002-002'', 7),
         [CountersObj (Some 1) (Some (Num 2)) (Some 2) (Some 3),
          ColorMapObj [(''Galaxy Black'', ''001'')],
          TypeCountersObj [(''PLA'', 3)],
          TypeCounterObj (Num 2),
          ColorMapObj [(''Galaxy Black'', ''001''), (''Arctic White'', ''002'')],
          TypeCounterObj (Num 3),
          TypeCountersObj [(''PLA'', 5)],
          CountersObj (Some 4) (Some (Num 3)) (Some 6) (Some 3)])"
    by code_simp
  moreover have "generateNewIdAndUpdateCountersH (Some ''PETG'') (Some ''Galaxy Black'') [CountersObj None None None None] 0 =
       Some ((''PETG-0001-001'', 1),
         [CountersObj None None None None,
          CountersObj (Some 2) (Some (Num 2)) (Some 3) None,
          ColorMapObj [(''Galaxy Black'', ''001'')],
          TypeCountersObj [(''PETG'', 4)],
          TypeCounterObj (Num 2)])"
    by code_simp
  ultimately show ?thesis using h by (intro conjI)
qed

end
